theory Spec2Isabelle
  imports Complex_Main
begin

section \<open>The Number values of the language\<close>

text \<open>
  \<^verbatim>\<open>Calculator.ts\<close> computes with the language's Number type: IEEE 754 binary64 values,
  read from the display with \<^verbatim>\<open>parseFloat\<close> and written back with \<^verbatim>\<open>toString\<close>.
  A finite value is kept as the rational it denotes (\<open>Fin 0\<close> is \<open>+0\<close>); every arithmetic
  result is the exact rational result rounded to the nearest binary64 value, ties to even.
\<close>

datatype number = NaN | PosInf | NegInf | NegZero | Fin rat

function bit_length :: "int \<Rightarrow> nat" where
  "bit_length n = (if n \<le> 0 then 0 else Suc (bit_length (n div 2)))"
  by pat_completeness auto
termination
  by (relation "measure nat") auto

function dec_length :: "int \<Rightarrow> nat" where
  "dec_length n = (if n \<le> 0 then 0 else Suc (dec_length (n div 10)))"
  by pat_completeness auto
termination
  by (relation "measure nat") auto

declare bit_length.simps [simp del] dec_length.simps [simp del]

definition pow2 :: "int \<Rightarrow> rat" where
  "pow2 i = (if 0 \<le> i then 2 ^ nat i else 1 / 2 ^ nat (- i))"

definition pow10 :: "int \<Rightarrow> rat" where
  "pow10 i = (if 0 \<le> i then 10 ^ nat i else 1 / 10 ^ nat (- i))"

text \<open>\<open>ilog2 a\<close> is the \<open>e\<close> with \<open>2^e \<le> a < 2^(e+1)\<close>, for \<open>a > 0\<close>.\<close>

definition ilog2 :: "rat \<Rightarrow> int" where
  "ilog2 a = (if 1 \<le> a then int (bit_length \<lfloor>a\<rfloor>) - 1
              else - int (bit_length (\<lceil>1 / a\<rceil> - 1)))"

definition round_half_even :: "rat \<Rightarrow> int" where
  "round_half_even x =
     (let f = \<lfloor>x\<rfloor>; d = x - of_int f
      in if d < 1 / 2 then f
         else if 1 / 2 < d then f + 1
         else if even f then f else f + 1)"

definition zero_of :: "bool \<Rightarrow> number" where
  "zero_of neg = (if neg then NegZero else Fin 0)"

definition inf_of :: "bool \<Rightarrow> number" where
  "inf_of neg = (if neg then NegInf else PosInf)"

text \<open>
  Rounding of an exact result to binary64: 53 significant bits, least exponent \<open>-1022\<close>
  (below it the spacing stays \<open>2^-1074\<close>), overflow to an infinity from \<open>2^1024\<close> on. The flag
  is the sign a zero result takes when the exact result is itself zero.
\<close>

definition fround :: "bool \<Rightarrow> rat \<Rightarrow> number" where
  "fround neg r =
     (if r = 0 then zero_of neg
      else
        let a = \<bar>r\<bar>;
            e = max (ilog2 a) (- 1022);
            u = pow2 (e - 52);
            m = of_int (round_half_even (a / u)) * u
        in if pow2 1024 \<le> m then inf_of (r < 0)
           else if m = 0 then zero_of (r < 0)
           else Fin (if r < 0 then - m else m))"

fun val_of :: "number \<Rightarrow> rat" where
  "val_of (Fin r) = r"
| "val_of _ = 0"

fun is_inf :: "number \<Rightarrow> bool" where
  "is_inf PosInf = True"
| "is_inf NegInf = True"
| "is_inf _ = False"

fun is_zero :: "number \<Rightarrow> bool" where
  "is_zero NegZero = True"
| "is_zero (Fin r) = (r = 0)"
| "is_zero _ = False"

fun is_neg :: "number \<Rightarrow> bool" where
  "is_neg NegInf = True"
| "is_neg NegZero = True"
| "is_neg (Fin r) = (r < 0)"
| "is_neg _ = False"

fun number_unaryMinus :: "number \<Rightarrow> number" where
  "number_unaryMinus NaN = NaN"
| "number_unaryMinus PosInf = NegInf"
| "number_unaryMinus NegInf = PosInf"
| "number_unaryMinus NegZero = Fin 0"
| "number_unaryMinus (Fin r) = (if r = 0 then NegZero else Fin (- r))"

definition number_add :: "number \<Rightarrow> number \<Rightarrow> number" where
  "number_add a b =
     (if a = NaN \<or> b = NaN then NaN
      else if is_inf a then (if is_inf b \<and> a \<noteq> b then NaN else a)
      else if is_inf b then b
      else fround (a = NegZero \<and> b = NegZero) (val_of a + val_of b))"

definition number_subtract :: "number \<Rightarrow> number \<Rightarrow> number" where
  "number_subtract a b = number_add a (number_unaryMinus b)"

definition number_multiply :: "number \<Rightarrow> number \<Rightarrow> number" where
  "number_multiply a b =
     (if a = NaN \<or> b = NaN then NaN
      else if is_inf a \<or> is_inf b then
        (if is_zero a \<or> is_zero b then NaN else inf_of (is_neg a \<noteq> is_neg b))
      else fround (is_neg a \<noteq> is_neg b) (val_of a * val_of b))"

definition number_divide :: "number \<Rightarrow> number \<Rightarrow> number" where
  "number_divide a b =
     (if a = NaN \<or> b = NaN then NaN
      else if is_inf a then (if is_inf b then NaN else inf_of (is_neg a \<noteq> is_neg b))
      else if is_inf b then zero_of (is_neg a \<noteq> is_neg b)
      else if is_zero b then
        (if is_zero a then NaN else inf_of (is_neg a \<noteq> is_neg b))
      else fround (is_neg a \<noteq> is_neg b) (val_of a / val_of b))"

text \<open>
  The relational operators go through \<open>lessThan\<close>, which is undefined (\<open>None\<close>) when an
  operand is \<open>NaN\<close>: \<open>a >= b\<close> and \<open>a <= b\<close> are then both false.
\<close>

definition number_lessThan :: "number \<Rightarrow> number \<Rightarrow> bool option" where
  "number_lessThan a b =
     (if a = NaN \<or> b = NaN then None
      else if a = PosInf then Some False
      else if b = NegInf then Some False
      else if a = NegInf then Some True
      else if b = PosInf then Some True
      else Some (val_of a < val_of b))"

definition number_ge :: "number \<Rightarrow> number \<Rightarrow> bool" where
  "number_ge a b = (number_lessThan a b = Some False)"

definition number_le :: "number \<Rightarrow> number \<Rightarrow> bool" where
  "number_le a b = (number_lessThan b a = Some False)"

text \<open>
  The fields \<^verbatim>\<open>arg\<close> and \<^verbatim>\<open>lastOp\<close> hold \<^verbatim>\<open>null\<close> until they are set: they are
  options. An arithmetic operator converts \<^verbatim>\<open>null\<close> to \<open>+0\<close>; \<^verbatim>\<open>null === 0\<close> is false,
  while both zeros are \<^verbatim>\<open>=== 0\<close>.
\<close>

fun ToNumber :: "number option \<Rightarrow> number" where
  "ToNumber None = Fin 0"
| "ToNumber (Some n) = n"

fun strictly_equals_zero :: "number option \<Rightarrow> bool" where
  "strictly_equals_zero None = False"
| "strictly_equals_zero (Some n) = is_zero n"

definition MAX_SAFE_INTEGER :: number where
  "MAX_SAFE_INTEGER = Fin 9007199254740991"

definition MIN_SAFE_INTEGER :: number where
  "MIN_SAFE_INTEGER = Fin (- 9007199254740991)"

subsection \<open>Number to string\<close>

definition digit_char :: "nat \<Rightarrow> char" where
  "digit_char d = ''0123456789'' ! d"

fun digits_of :: "nat \<Rightarrow> string" where
  "digits_of n = (if n < 10 then [digit_char n] else digits_of (n div 10) @ [digit_char (n mod 10)])"

declare digits_of.simps [simp del]

text \<open>\<open>decimal_exponent r\<close> is the \<open>n\<close> with \<open>10^(n-1) \<le> r < 10^n\<close>, for \<open>r > 0\<close>.\<close>

definition decimal_exponent :: "rat \<Rightarrow> int" where
  "decimal_exponent r = (if 1 \<le> r then int (dec_length \<lfloor>r\<rfloor>)
                         else 1 - int (dec_length (\<lceil>1 / r\<rceil> - 1)))"

text \<open>
  The digits of \<^verbatim>\<open>toString\<close>: the least \<open>k\<close> for which some \<open>s\<close> of \<open>k\<close> digits has
  \<open>s * 10^(n-k)\<close> round to the value, and of these \<open>s\<close> the closest to the value. Only the
  two neighbours of the value on the grid of \<open>k\<close> digits can be that \<open>s\<close>. Seventeen digits
  identify every binary64 value.
\<close>

definition candidate :: "nat \<Rightarrow> rat \<Rightarrow> int \<Rightarrow> (nat \<times> nat \<times> int) option" where
  "candidate k r n =
     (let sc = pow10 (n - int k);
          lo = \<lfloor>r / sc\<rfloor>;
          hi = \<lceil>r / sc\<rceil>;
          oklo = (fround False (of_int lo * sc) = Fin r);
          okhi = (fround False (of_int hi * sc) = Fin r);
          dlo = r - of_int lo * sc;
          dhi = of_int hi * sc - r;
          s = (if oklo \<and> okhi then (if dhi < dlo \<or> (dhi = dlo \<and> even hi) then hi else lo)
               else if okhi then hi else lo)
      in if oklo \<or> okhi then
           (if s = 10 ^ k then Some (10 ^ (k - 1), k, n + 1) else Some (nat s, k, n))
         else None)"

function shortest_digits :: "nat \<Rightarrow> rat \<Rightarrow> int \<Rightarrow> nat \<times> nat \<times> int" where
  "shortest_digits k r n =
     (case candidate k r n of
        Some res \<Rightarrow> res
      | None \<Rightarrow> if 17 \<le> k then (nat \<lfloor>r / pow10 (n - int k)\<rfloor>, k, n)
                else shortest_digits (Suc k) r n)"
  by pat_completeness auto
termination
  by (relation "measure (\<lambda>(k, r, n). 17 - k)") auto

declare shortest_digits.simps [simp del]

definition format_decimal :: "nat \<Rightarrow> nat \<Rightarrow> int \<Rightarrow> string" where
  "format_decimal s k n =
     (let ds = digits_of s
      in if int k \<le> n \<and> n \<le> 21 then ds @ replicate (nat (n - int k)) (CHR ''0'')
         else if 0 < n \<and> n \<le> 21 then take (nat n) ds @ ''.'' @ drop (nat n) ds
         else if - 6 < n \<and> n \<le> 0 then ''0.'' @ replicate (nat (- n)) (CHR ''0'') @ ds
         else
           let e = n - 1;
               es = (if e < 0 then ''-'' else ''+'') @ digits_of (nat \<bar>e\<bar>)
           in if k = 1 then ds @ ''e'' @ es
              else take 1 ds @ ''.'' @ drop 1 ds @ ''e'' @ es)"

definition positive_toString :: "rat \<Rightarrow> string" where
  "positive_toString r =
     (case shortest_digits 1 r (decimal_exponent r) of (s, k, n) \<Rightarrow> format_decimal s k n)"

fun number_toString :: "number \<Rightarrow> string" where
  "number_toString NaN = ''NaN''"
| "number_toString PosInf = ''Infinity''"
| "number_toString NegInf = ''-Infinity''"
| "number_toString NegZero = ''0''"
| "number_toString (Fin r) =
     (if r = 0 then ''0''
      else if r < 0 then ''-'' @ positive_toString (- r)
      else positive_toString r)"

declare number_toString.simps [simp del]

subsection \<open>String to number\<close>

text \<open>
  \<^verbatim>\<open>parseFloat\<close> skips leading white space and reads the longest prefix that is a decimal
  literal: an optional sign, then \<^verbatim>\<open>Infinity\<close> or digits with an optional fraction and an
  optional exponent (taken only when it is complete). With no such prefix the result is
  \<open>NaN\<close>. A character is a code unit below 256.
\<close>

definition is_white_space :: "char \<Rightarrow> bool" where
  "is_white_space c = (of_char c \<in> {9, 10, 11, 12, 13, 32, 160 :: nat})"

definition is_digit :: "char \<Rightarrow> bool" where
  "is_digit c = (c \<in> set ''0123456789'')"

definition digit_val :: "char \<Rightarrow> nat" where
  "digit_val c = of_char c - 48"

definition digits_val :: "string \<Rightarrow> nat" where
  "digits_val ds = foldl (\<lambda>acc c. 10 * acc + digit_val c) 0 ds"

datatype decimal_literal = LitInfinity | LitDecimal nat int

definition starts_with :: "string \<Rightarrow> string \<Rightarrow> bool" where
  "starts_with p s = (take (length p) s = p)"

definition parse_exponent :: "string \<Rightarrow> int" where
  "parse_exponent s =
     (case s of
        [] \<Rightarrow> 0
      | c # t \<Rightarrow>
          if c = CHR ''e'' \<or> c = CHR ''E'' then
            (case t of
               [] \<Rightarrow> 0
             | d # u \<Rightarrow>
                 if d = CHR ''-'' then - int (digits_val (takeWhile is_digit u))
                 else if d = CHR ''+'' then int (digits_val (takeWhile is_digit u))
                 else int (digits_val (takeWhile is_digit t)))
          else 0)"

definition parse_unsigned :: "string \<Rightarrow> decimal_literal option" where
  "parse_unsigned s =
     (if starts_with ''Infinity'' s then Some LitInfinity
      else
        let ip = takeWhile is_digit s;
            r1 = dropWhile is_digit s;
            dot = starts_with ''.'' r1;
            fp = (if dot then takeWhile is_digit (tl r1) else []);
            r2 = (if dot then dropWhile is_digit (tl r1) else r1)
        in if ip = [] \<and> fp = [] then None
           else Some (LitDecimal (digits_val (ip @ fp))
                        (parse_exponent r2 - int (length fp))))"

definition parseFloat :: "string \<Rightarrow> number" where
  "parseFloat str =
     (let t = dropWhile is_white_space str;
          neg = starts_with ''-'' t;
          u = (if neg \<or> starts_with ''+'' t then tl t else t)
      in case parse_unsigned u of
           None \<Rightarrow> NaN
         | Some LitInfinity \<Rightarrow> inf_of neg
         | Some (LitDecimal m e) \<Rightarrow>
             fround neg ((if neg then - 1 else 1) * of_nat m * pow10 e))"

section \<open>The calculator\<close>

datatype Op = Add | Sub | Mul | Div

datatype level = Debug | Info | Warn | Error

text \<open>
  The fields of the class \<^verbatim>\<open>Calculator\<close>. The field \<open>calLog\<close> is the list of the calls
  made to the logger, oldest first.
\<close>

record calculator =
  lcd :: string
  arg :: "number option"
  lastOp :: "Op option"
  overwrite :: bool
  repeat :: bool
  calLog :: "(level \<times> string) list"

text \<open>
  Modelled from the spec: the class \<^verbatim>\<open>Logger\<close> of \<^verbatim>\<open>../logger\<close>, which is not among the
  sources. The calculator uses its four channels (debug, info, warning, error) for
  notifications only: a call changes nothing but the logger, so it is recorded as its
  channel and message.
\<close>

definition log_call :: "level \<Rightarrow> string \<Rightarrow> calculator \<Rightarrow> calculator" where
  "log_call l msg c = c\<lparr>calLog := calLog c @ [(l, msg)]\<rparr>"

definition new_Calculator :: calculator where
  "new_Calculator =
     \<lparr>lcd = ''0'', arg = None, lastOp = None, overwrite = True, repeat = False, calLog = []\<rparr>"

definition debugLog :: "calculator \<Rightarrow> calculator" where
  "debugLog c = log_call Debug ''Button pressed.'' c"

definition highOrLowWarningLog :: "calculator \<Rightarrow> calculator" where
  "highOrLowWarningLog c =
     (if number_ge (parseFloat (lcd c)) MAX_SAFE_INTEGER then
        log_call Warn ''Number is greater than the maximum number'' c
      else if number_le (parseFloat (lcd c)) MIN_SAFE_INTEGER then
        log_call Warn ''Number is less than the maximum number'' c
      else c)"

definition digit :: "number \<Rightarrow> calculator \<Rightarrow> calculator" where
  "digit x c0 =
     (let c = debugLog c0
      in if overwrite c then
           (highOrLowWarningLog (c\<lparr>lcd := number_toString x\<rparr>))\<lparr>overwrite := False\<rparr>
         else highOrLowWarningLog (c\<lparr>lcd := lcd c @ number_toString x\<rparr>))"

definition decimal :: "calculator \<Rightarrow> calculator" where
  "decimal c0 =
     (let c = debugLog c0
      in if overwrite c then c\<lparr>lcd := ''0.'', overwrite := False\<rparr>
         else if CHR ''.'' \<notin> set (lcd c) then c\<lparr>lcd := lcd c @ ''.''\<rparr>
         else c)"

definition negate :: "calculator \<Rightarrow> calculator" where
  "negate c0 =
     (let c = debugLog c0
      in if overwrite c then c\<lparr>lcd := ''0'', overwrite := False\<rparr>
         else if lcd c \<noteq> ''0'' then
           highOrLowWarningLog
             (if starts_with ''-'' (lcd c) then c\<lparr>lcd := drop 1 (lcd c)\<rparr>
              else c\<lparr>lcd := ''-'' @ lcd c\<rparr>)
         else c)"

definition op :: "Op \<Rightarrow> calculator \<Rightarrow> calculator" where
  "op oper c0 =
     (let c = (debugLog c0)\<lparr>overwrite := True\<rparr>;
          c' =
            (if arg c = None \<or> repeat c then
               c\<lparr>lastOp := Some oper, arg := Some (parseFloat (lcd c))\<rparr>
             else
               let d =
                 (case lastOp c of
                    Some Add \<Rightarrow>
                      highOrLowWarningLog
                        (c\<lparr>lcd := number_toString
                                   (number_add (ToNumber (arg c)) (parseFloat (lcd c)))\<rparr>)
                  | Some Sub \<Rightarrow>
                      highOrLowWarningLog
                        (c\<lparr>lcd := number_toString
                                   (number_subtract (ToNumber (arg c)) (parseFloat (lcd c)))\<rparr>)
                  | Some Mul \<Rightarrow>
                      highOrLowWarningLog
                        (c\<lparr>lcd := number_toString
                                   (number_multiply (ToNumber (arg c)) (parseFloat (lcd c)))\<rparr>)
                  | Some Div \<Rightarrow>
                      (let e = (if strictly_equals_zero (arg c)
                                then log_call Error ''Divison by zero is not supported.'' c
                                else c)
                       in highOrLowWarningLog
                            (e\<lparr>lcd := number_toString
                                       (number_divide (ToNumber (arg e)) (parseFloat (lcd e)))\<rparr>))
                  | None \<Rightarrow> c)
               in d\<lparr>lastOp := Some oper, arg := Some (parseFloat (lcd d))\<rparr>)
      in c'\<lparr>repeat := False\<rparr>)"

definition equals :: "calculator \<Rightarrow> calculator" where
  "equals c0 =
     (let c = debugLog c0;
          oldLcd = parseFloat (lcd c);
          d =
            (case lastOp c of
               Some Add \<Rightarrow>
                 highOrLowWarningLog
                   (c\<lparr>lcd := number_toString
                              (number_add (ToNumber (arg c)) (parseFloat (lcd c)))\<rparr>)
             | Some Sub \<Rightarrow>
                 highOrLowWarningLog
                   (if repeat c then
                      c\<lparr>lcd := number_toString
                                 (number_subtract (parseFloat (lcd c)) (ToNumber (arg c)))\<rparr>
                    else
                      c\<lparr>lcd := number_toString
                                 (number_subtract (ToNumber (arg c)) (parseFloat (lcd c)))\<rparr>)
             | Some Mul \<Rightarrow>
                 highOrLowWarningLog
                   (c\<lparr>lcd := number_toString
                              (number_multiply (ToNumber (arg c)) (parseFloat (lcd c)))\<rparr>)
             | Some Div \<Rightarrow>
                 if strictly_equals_zero (arg c) then
                   log_call Error ''Divison by zero is not supported.'' c
                 else
                   highOrLowWarningLog
                     (c\<lparr>lcd := number_toString
                                (number_divide (ToNumber (arg c)) (parseFloat (lcd c)))\<rparr>)
             | None \<Rightarrow> c);
          e = (if \<not> repeat d then d\<lparr>arg := Some oldLcd\<rparr> else d)
      in log_call Info ''Overwrite is now enabled.'' (e\<lparr>repeat := True, overwrite := True\<rparr>))"

definition clear :: "calculator \<Rightarrow> calculator" where
  "clear c0 =
     (let c = debugLog c0;
          d = (if overwrite c then c\<lparr>arg := None, lastOp := None, repeat := False\<rparr> else c)
      in highOrLowWarningLog
           (log_call Info ''Overwrite is now enabled.'' (d\<lparr>lcd := ''0'', overwrite := True\<rparr>)))"

definition square :: "calculator \<Rightarrow> calculator" where
  "square c0 =
     (let c = debugLog c0
      in highOrLowWarningLog
           (c\<lparr>lcd := number_toString
                      (number_multiply (parseFloat (lcd c)) (parseFloat (lcd c)))\<rparr>))"

definition percent :: "calculator \<Rightarrow> calculator" where
  "percent c0 =
     (let c = debugLog c0
      in highOrLowWarningLog
           (c\<lparr>lcd := number_toString (number_divide (parseFloat (lcd c)) (Fin 100))\<rparr>))"

subsection \<open>Sequences of button presses\<close>

text \<open>
  One button is one method call. A digit button passes a digit, \<open>0\<close> to \<open>9\<close>, as
  \<^verbatim>\<open>digit\<close> documents its parameter.
\<close>

datatype button =
  Digit nat | Decimal | Negate | Operator Op | Equals | Clear | Square | Percent

fun valid_button :: "button \<Rightarrow> bool" where
  "valid_button (Digit d) = (d \<le> 9)"
| "valid_button _ = True"

fun press :: "button \<Rightarrow> calculator \<Rightarrow> calculator" where
  "press (Digit d) c = digit (Fin (of_nat d)) c"
| "press Decimal c = decimal c"
| "press Negate c = negate c"
| "press (Operator oper) c = op oper c"
| "press Equals c = equals c"
| "press Clear c = clear c"
| "press Square c = square c"
| "press Percent c = percent c"

definition run :: "button list \<Rightarrow> calculator \<Rightarrow> calculator" where
  "run bs c = fold press bs c"

subsection \<open>The display property as the specification words it\<close>

text \<open>
  The specification calls the display a syntactically valid numeric string: not empty, an
  optional leading minus sign, then digits with at most one decimal point, and a finite
  number when read numerically. This predicate follows those words; it is compared with
  what the calculator displays.
\<close>

fun is_finite :: "number \<Rightarrow> bool" where
  "is_finite NaN = False"
| "is_finite PosInf = False"
| "is_finite NegInf = False"
| "is_finite _ = True"

definition spec_valid_display :: "string \<Rightarrow> bool" where
  "spec_valid_display s =
     (let body = (if starts_with ''-'' s then tl s else s)
      in s \<noteq> [] \<and> list_all (\<lambda>c. is_digit c \<or> c = CHR ''.'') body
         \<and> list_ex is_digit body \<and> count_list body (CHR ''.'') \<le> 1
         \<and> is_finite (parseFloat s))"

text \<open>
  What does hold of every string the calculator displays: it is not empty, it has at most
  one decimal point, and a leading minus sign is followed by a character that is not a
  minus sign.
\<close>

definition display_inv :: "string \<Rightarrow> bool" where
  "display_inv s =
     (s \<noteq> [] \<and> count_list s (CHR ''.'') \<le> 1
      \<and> (starts_with ''-'' s \<longrightarrow> tl s \<noteq> [] \<and> \<not> starts_with ''-'' (tl s)))"

section \<open>Evaluating the Number operations\<close>

text \<open>
  The recursive equations of the two length functions and of \<open>digits_of\<close> are kept out of
  the simplifier; these are their two cases.
\<close>

lemma bit_length_pos: "0 < n \<Longrightarrow> bit_length n = Suc (bit_length (n div 2))"
  by (subst bit_length.simps) simp

lemma bit_length_nonpos: "n \<le> 0 \<Longrightarrow> bit_length n = 0"
  by (subst bit_length.simps) simp

lemma dec_length_pos: "0 < n \<Longrightarrow> dec_length n = Suc (dec_length (n div 10))"
  by (subst dec_length.simps) simp

lemma dec_length_nonpos: "n \<le> 0 \<Longrightarrow> dec_length n = 0"
  by (subst dec_length.simps) simp

lemma digits_of_small: "n < 10 \<Longrightarrow> digits_of n = [digit_char n]"
  by (subst digits_of.simps) simp

lemma digits_of_large: "10 \<le> n \<Longrightarrow> digits_of n = digits_of (n div 10) @ [digit_char (n mod 10)]"
  by (subst digits_of.simps) simp

text \<open>
  Rounding is exact on the integers below \<open>2^53\<close>: they are binary64 values.
\<close>

lemma bit_length_bounds:
  "0 < n \<Longrightarrow> 2 ^ (bit_length n - 1) \<le> n \<and> n < 2 ^ bit_length n"
proof (induction n rule: bit_length.induct)
  case (1 n)
  show ?case
  proof (cases "n = 1")
    case True
    then show ?thesis by (simp add: bit_length_pos bit_length_nonpos)
  next
    case False
    with "1.prems" have h: "0 < n div 2" by simp
    from "1.prems" have step: "bit_length n = Suc (bit_length (n div 2))"
      by (rule bit_length_pos)
    from h have pos: "0 < bit_length (n div 2)"
      by (simp add: bit_length_pos)
    from "1.IH" "1.prems" h
    have ih: "2 ^ (bit_length (n div 2) - 1) \<le> n div 2" "n div 2 < 2 ^ bit_length (n div 2)"
      by simp_all
    obtain j where j: "bit_length (n div 2) = Suc j"
      using pos by (cases "bit_length (n div 2)") simp_all
    from ih j have "2 * 2 ^ j \<le> 2 * (n div 2)" "2 * (n div 2) + 1 < 2 * 2 ^ Suc j"
      by simp_all
    then have "2 ^ Suc j \<le> n" "n < 2 ^ Suc (Suc j)"
      by simp_all
    then show ?thesis
      by (simp add: step j)
  qed
qed

lemma round_half_even_of_int [simp]: "round_half_even (of_int k) = k"
  by (simp add: round_half_even_def)

lemma fround_of_int:
  assumes "0 < n" and "n < 2 ^ 53"
  shows "fround b (of_int n) = Fin (of_int n)"
proof -
  define L where "L = bit_length n"
  from bit_length_bounds [OF assms(1)]
  have lo: "2 ^ (L - 1) \<le> n" and hi: "n < 2 ^ L"
    by (simp_all add: L_def)
  have Lpos: "0 < L"
    using assms(1) by (simp add: L_def bit_length_pos)
  have L53: "L \<le> 53"
  proof (rule ccontr)
    assume "\<not> L \<le> 53"
    then have "(2::int) ^ 53 \<le> 2 ^ (L - 1)"
      by (intro power_increasing) simp_all
    with lo assms(2) show False by simp
  qed
  have il: "ilog2 (of_int n) = int L - 1"
    using assms(1) by (simp add: ilog2_def L_def)
  have e: "max (ilog2 (of_int n)) (- 1022) = int L - 1"
    using il Lpos by simp
  have u: "pow2 (int L - 53) = 1 / 2 ^ (53 - L)"
  proof (cases "L = 53")
    case True
    then show ?thesis by (simp add: pow2_def)
  next
    case False
    with L53 have "L < 53" by simp
    then have "nat (53 - int L) = 53 - L" by simp
    with \<open>L < 53\<close> show ?thesis by (simp add: pow2_def)
  qed
  have m: "round_half_even (of_int n * 2 ^ (53 - L)) = n * 2 ^ (53 - L)"
    using round_half_even_of_int [of "n * 2 ^ (53 - L)"] by simp
  have big: "\<not> pow2 1024 \<le> (of_int n :: rat)"
  proof -
    have "(of_int n :: rat) < of_int (2 ^ 53)"
      using assms(2) by (simp only: of_int_less_iff)
    also have "\<dots> \<le> 2 ^ 1024" by simp
    finally show ?thesis by (simp add: pow2_def)
  qed
  have a: "\<bar>of_int n :: rat\<bar> = of_int n"
    using assms(1) by simp
  show ?thesis
    using assms(1) big
    by (simp add: fround_def Let_def a e u m)
qed

lemma fround_of_nat:
  "0 < d \<Longrightarrow> d < 2 ^ 53 \<Longrightarrow> fround b (of_nat d) = Fin (of_nat d)"
  using fround_of_int [of "int d" b] by simp

lemma fround_numeral:
  "(numeral k :: int) < 2 ^ 53 \<Longrightarrow> fround b (numeral k) = Fin (numeral k)"
  using fround_of_int [of "numeral k" b] by simp

lemma fround_one: "fround b 1 = Fin 1"
  using fround_of_int [of 1 b] by simp

lemma fround_zero: "fround b 0 = zero_of b"
  by (simp add: fround_def)

lemma fround_half: "fround b (1 / 2) = Fin (1 / 2)"
  apply (simp add: fround_def Let_def ilog2_def bit_length_pos bit_length_nonpos pow2_def)
  apply (simp add: round_half_even_def Let_def)
  done

subsection \<open>Reading and writing small numbers\<close>

lemmas parse_eval = pow10_def is_white_space_def is_digit_def digit_val_def
  digits_val_def starts_with_def parse_exponent_def parse_unsigned_def parseFloat_def Let_def

lemmas parse_eval2 = parse_eval fround_numeral fround_zero fround_one zero_of_def inf_of_def

lemma parseFloat_digits:
  "parseFloat ''0'' = Fin 0" "parseFloat ''1'' = Fin 1"
  "parseFloat ''2'' = Fin 2" "parseFloat ''3'' = Fin 3"
  "parseFloat ''4'' = Fin 4" "parseFloat ''5'' = Fin 5"
  "parseFloat ''6'' = Fin 6" "parseFloat ''7'' = Fin 7"
  "parseFloat ''8'' = Fin 8" "parseFloat ''9'' = Fin 9"
  by (simp_all add: parse_eval2)

lemma parseFloat_Infinity: "parseFloat ''Infinity'' = PosInf"
  by (simp add: parse_eval2)

lemma parseFloat_minus_zero: "parseFloat ''-0'' = NegZero"
  by (simp add: parse_eval2)

lemma parseFloat_double_minus: "parseFloat (CHR ''-'' # CHR ''-'' # r) = NaN"
  by (simp add: parseFloat_def parse_unsigned_def starts_with_def is_white_space_def
        is_digit_def)

lemma dec_length_digit: "0 < n \<Longrightarrow> n \<le> 9 \<Longrightarrow> dec_length n = 1"
  by (simp add: dec_length_pos dec_length_nonpos)

lemma candidate_digit:
  assumes "1 \<le> d" and "d \<le> 9"
  shows "candidate 1 (of_nat d) 1 = Some (d, 1, 1)"
proof -
  have f: "fround False (of_nat d) = Fin (of_nat d)"
    using assms by (intro fround_of_nat) simp_all
  have "int d \<noteq> 10" using assms by simp
  then show ?thesis
    by (simp add: candidate_def pow10_def f)
qed

lemma positive_toString_digit:
  assumes "1 \<le> d" and "d \<le> 9"
  shows "positive_toString (of_nat d) = [digit_char d]"
proof -
  have n: "decimal_exponent (of_nat d) = 1"
    using assms by (simp add: decimal_exponent_def dec_length_digit)
  have s: "shortest_digits 1 (of_nat d) 1 = (d, 1, 1)"
    using candidate_digit [OF assms] by (subst shortest_digits.simps) simp
  show ?thesis
    using assms s by (simp add: positive_toString_def n format_decimal_def digits_of_small)
qed

lemma number_toString_digit:
  assumes "d \<le> 9"
  shows "number_toString (Fin (of_nat d)) = [digit_char d]"
proof (cases "d = 0")
  case True
  then show ?thesis by (simp add: digit_char_def number_toString.simps)
next
  case False
  with assms show ?thesis by (simp add: positive_toString_digit number_toString.simps)
qed

lemma toString_digits:
  "number_toString (Fin 0) = ''0''" "number_toString (Fin 1) = ''1''"
  "number_toString (Fin 2) = ''2''" "number_toString (Fin 3) = ''3''"
  "number_toString (Fin 4) = ''4''" "number_toString (Fin 5) = ''5''"
  "number_toString (Fin 6) = ''6''" "number_toString (Fin 7) = ''7''"
  "number_toString (Fin 8) = ''8''" "number_toString (Fin 9) = ''9''"
  using number_toString_digit [of 0] number_toString_digit [of 1] number_toString_digit [of 2]
    number_toString_digit [of 3] number_toString_digit [of 4] number_toString_digit [of 5]
    number_toString_digit [of 6] number_toString_digit [of 7] number_toString_digit [of 8]
    number_toString_digit [of 9]
  by (simp_all add: digit_char_def)

lemma candidate_half: "candidate 1 (1 / 2) 0 = Some (5, 1, 0)"
  by (simp add: candidate_def pow10_def fround_half)

lemma positive_toString_half: "positive_toString (1 / 2) = ''0.5''"
proof -
  have n: "decimal_exponent (1 / 2) = 0"
    by (simp add: decimal_exponent_def dec_length_pos dec_length_nonpos)
  have s: "shortest_digits 1 (1 / 2) 0 = (5, 1, 0)"
    using candidate_half by (subst shortest_digits.simps) simp
  show ?thesis
    using s by (simp add: positive_toString_def n format_decimal_def digits_of_small digit_char_def)
qed

lemma toString_half: "number_toString (Fin (1 / 2)) = ''0.5''"
  by (simp add: number_toString.simps positive_toString_half)

lemma floor_5_2: "\<lfloor>(5::rat) / 2\<rfloor> = 2"
  by (simp add: floor_eq_iff)

lemma ceiling_5_2: "\<lceil>(5::rat) / 2\<rceil> = 3"
  by (simp add: ceiling_eq_iff)

lemma candidate_25_one: "candidate 1 25 2 = None"
  by (simp add: candidate_def pow10_def fround_numeral Let_def floor_5_2 ceiling_5_2)

lemma candidate_25_two: "candidate 2 25 2 = Some (25, 2, 2)"
  by (simp add: candidate_def pow10_def fround_numeral Let_def)

lemma toString_25: "number_toString (Fin 25) = ''25''"
proof -
  have n: "decimal_exponent 25 = 2"
    by (simp add: decimal_exponent_def dec_length_pos dec_length_nonpos)
  have s: "shortest_digits 1 25 2 = (25, 2, 2)"
    using candidate_25_one candidate_25_two [unfolded numeral_2_eq_2]
    by (subst shortest_digits.simps, simp, subst shortest_digits.simps, simp)
  show ?thesis
    using s
    by (simp add: number_toString.simps positive_toString_def n format_decimal_def
          digits_of_small digits_of_large digit_char_def)
qed

lemma parseFloat_50: "parseFloat ''50'' = Fin 50"
  by (simp add: parse_eval2)

subsection \<open>The shape of a formatted number\<close>

lemma digit_char_is_digit: "d < 10 \<Longrightarrow> is_digit (digit_char d)"
proof -
  assume "d < 10"
  then have "d \<in> {0, 1, 2, 3, 4, 5, 6, 7, 8, 9}"
    by auto
  then show ?thesis
    by (auto simp: digit_char_def is_digit_def)
qed

lemma digits_of_digits: "list_all is_digit (digits_of n)"
proof (induction n rule: digits_of.induct)
  case (1 n)
  show ?case
  proof (cases "n < 10")
    case True
    then show ?thesis by (simp add: digits_of_small digit_char_is_digit)
  next
    case False
    with "1.IH" show ?thesis
      by (simp add: digits_of_large digit_char_is_digit)
  qed
qed

lemma digits_of_nonempty: "digits_of n \<noteq> []"
  by (subst digits_of.simps) simp

lemma digits_no_point: "list_all is_digit xs \<Longrightarrow> count_list xs (CHR ''.'') = 0"
  by (induction xs) (auto simp: is_digit_def)

lemma digits_hd_not_minus: "list_all is_digit xs \<Longrightarrow> xs \<noteq> [] \<Longrightarrow> hd xs \<noteq> CHR ''-''"
  by (cases xs) (auto simp: is_digit_def)

lemma list_all_take: "list_all P xs \<Longrightarrow> list_all P (take n xs)"
  by (metis append_take_drop_id list_all_append)

lemma list_all_drop: "list_all P xs \<Longrightarrow> list_all P (drop n xs)"
  by (metis append_take_drop_id list_all_append)

lemma count_replicate_zero: "count_list (replicate n (CHR ''0'')) (CHR ''.'') = 0"
  by (induction n) simp_all

lemma format_decimal_points: "count_list (format_decimal s k n) (CHR ''.'') \<le> 1"
proof -
  have ds: "list_all is_digit (digits_of s)"
    by (rule digits_of_digits)
  have c: "count_list (digits_of s) (CHR ''.'') = 0"
    "count_list (take m (digits_of s)) (CHR ''.'') = 0"
    "count_list (drop m (digits_of s)) (CHR ''.'') = 0"
    "count_list (digits_of j) (CHR ''.'') = 0" for m j
    by (simp_all add: digits_no_point digits_of_digits list_all_take list_all_drop)
  show ?thesis
    by (simp add: format_decimal_def Let_def c count_replicate_zero)
qed

lemma format_decimal_head:
  "format_decimal s k n \<noteq> [] \<and> hd (format_decimal s k n) \<noteq> CHR ''-''"
proof -
  have ds: "list_all is_digit (digits_of s)" and ne: "digits_of s \<noteq> []"
    by (rule digits_of_digits, rule digits_of_nonempty)
  have h: "hd (digits_of s) \<noteq> CHR ''-''"
    using ds ne by (rule digits_hd_not_minus)
  have t: "0 < m \<Longrightarrow> take m (digits_of s) \<noteq> [] \<and> hd (take m (digits_of s)) \<noteq> CHR ''-''" for m
    using ne h by (cases "digits_of s"; cases m) simp_all
  show ?thesis
    using ne h t [of 1] t [of "nat n"]
    by (simp add: format_decimal_def Let_def hd_append)
qed

lemma positive_toString_shape:
  "positive_toString r \<noteq> [] \<and> hd (positive_toString r) \<noteq> CHR ''-''
   \<and> count_list (positive_toString r) (CHR ''.'') \<le> 1"
proof -
  obtain s k n where "shortest_digits 1 r (decimal_exponent r) = (s, k, n)"
    by (cases "shortest_digits 1 r (decimal_exponent r)") auto
  then have "positive_toString r = format_decimal s k n"
    by (simp add: positive_toString_def)
  with format_decimal_head [of s k n] format_decimal_points [of s k n]
  show ?thesis by simp
qed

text \<open>
  A positive number is never written \<open>0\<close>: its first digit is not zero. So no number is
  written \<open>-0\<close>.
\<close>

lemma dec_length_bounds:
  "0 < n \<Longrightarrow> 10 ^ (dec_length n - 1) \<le> n \<and> n < 10 ^ dec_length n"
proof (induction n rule: dec_length.induct)
  case (1 n)
  show ?case
  proof (cases "n < 10")
    case True
    with "1.prems" show ?thesis
      by (simp add: dec_length_pos dec_length_nonpos)
  next
    case False
    then have h: "0 < n div 10" by simp
    from "1.prems" have step: "dec_length n = Suc (dec_length (n div 10))"
      by (rule dec_length_pos)
    from h have pos: "0 < dec_length (n div 10)"
      by (simp add: dec_length_pos)
    from "1.IH" "1.prems" h
    have ih: "10 ^ (dec_length (n div 10) - 1) \<le> n div 10"
      "n div 10 < 10 ^ dec_length (n div 10)"
      by simp_all
    obtain j where j: "dec_length (n div 10) = Suc j"
      using pos by (cases "dec_length (n div 10)") simp_all
    from ih j have "10 * 10 ^ j \<le> 10 * (n div 10)" "10 * (n div 10) + 10 \<le> 10 * 10 ^ Suc j"
      by simp_all
    then have "10 ^ Suc j \<le> n" "n < 10 ^ Suc (Suc j)"
      by simp_all
    then show ?thesis
      by (simp add: step j)
  qed
qed

lemma pow10_pos: "0 < pow10 i"
  by (simp add: pow10_def)

lemma pow10_mono: "i \<le> j \<Longrightarrow> pow10 i \<le> pow10 j"
proof -
  assume ij: "i \<le> j"
  have p: "pow10 i = 10 powi i" for i
    by (simp add: pow10_def power_int_def power_one_over)
  show ?thesis
    unfolding p using ij by (intro power_int_increasing) simp_all
qed

lemma decimal_exponent_lower:
  assumes "0 < r"
  shows "pow10 (decimal_exponent r - 1) \<le> r"
proof (cases "1 \<le> r")
  case True
  then have f: "0 < \<lfloor>r\<rfloor>" by simp
  from dec_length_bounds [OF f] have "10 ^ (dec_length \<lfloor>r\<rfloor> - 1) \<le> \<lfloor>r\<rfloor>"
    by simp
  then have "(of_int (10 ^ (dec_length \<lfloor>r\<rfloor> - 1)) :: rat) \<le> of_int \<lfloor>r\<rfloor>"
    by (simp only: of_int_le_iff)
  also have "\<dots> \<le> r" by simp
  finally have "(10 :: rat) ^ (dec_length \<lfloor>r\<rfloor> - 1) \<le> r" by simp
  moreover have "0 < dec_length \<lfloor>r\<rfloor>"
    using f by (simp add: dec_length_pos)
  ultimately show ?thesis
    using True by (simp add: decimal_exponent_def pow10_def nat_diff_distrib' of_nat_diff)
next
  case False
  define M where "M = \<lceil>1 / r\<rceil> - 1"
  from False assms have "1 < 1 / r" by simp
  then have "1 < \<lceil>1 / r\<rceil>" by (simp add: less_ceiling_iff)
  then have M: "0 < M" by (simp add: M_def)
  from dec_length_bounds [OF M] have "M < 10 ^ dec_length M" by simp
  then have "\<lceil>1 / r\<rceil> \<le> 10 ^ dec_length M" by (simp add: M_def)
  then have "1 / r \<le> of_int (10 ^ dec_length M)"
    by (simp only: ceiling_le_iff)
  then have "1 / r \<le> 10 ^ dec_length M" by simp
  with assms have "1 / 10 ^ dec_length M \<le> r"
    by (simp add: field_simps)
  moreover have "0 < dec_length M"
    using M by (simp add: dec_length_pos)
  ultimately show ?thesis
    using False by (simp add: decimal_exponent_def pow10_def M_def)
qed

lemma scaled_at_least_one:
  assumes "pow10 (n - 1) \<le> r" and "1 \<le> k"
  shows "1 \<le> \<lfloor>r / pow10 (n - int k)\<rfloor>"
proof -
  have "pow10 (n - int k) \<le> pow10 (n - 1)"
    using assms(2) by (intro pow10_mono) simp
  with assms(1) have "pow10 (n - int k) \<le> r" by simp
  then have "1 \<le> r / pow10 (n - int k)"
    using pow10_pos [of "n - int k"] by (simp add: field_simps)
  then show ?thesis by simp
qed

lemma candidate_positive:
  assumes "pow10 (n - 1) \<le> r" and "1 \<le> k" and "candidate k r n = Some (s, k', n')"
  shows "1 \<le> s"
proof -
  define lo where "lo = \<lfloor>r / pow10 (n - int k)\<rfloor>"
  define hi where "hi = \<lceil>r / pow10 (n - int k)\<rceil>"
  have lo: "1 \<le> lo"
    unfolding lo_def using assms(1,2) by (rule scaled_at_least_one)
  have "lo \<le> hi"
    unfolding lo_def hi_def by (rule floor_le_ceiling)
  with lo have hi: "1 \<le> hi" by simp
  from assms(3) have "s = nat lo \<or> s = nat hi \<or> s = 10 ^ (k - 1)"
    unfolding candidate_def Let_def lo_def [symmetric] hi_def [symmetric]
    by (auto split: if_splits)
  with lo hi show ?thesis by auto
qed

lemma shortest_digits_positive:
  "pow10 (n - 1) \<le> r \<Longrightarrow> 1 \<le> k \<Longrightarrow> shortest_digits k r n = (s, k', n') \<Longrightarrow> 1 \<le> s"
proof (induction k r n rule: shortest_digits.induct)
  case (1 k r n)
  show ?case
  proof (cases "candidate k r n")
    case (Some res)
    with "1.prems"(3) have "candidate k r n = Some (s, k', n')"
      by (subst (asm) shortest_digits.simps) simp
    with "1.prems"(1,2) show ?thesis by (rule candidate_positive)
  next
    case None
    show ?thesis
    proof (cases "17 \<le> k")
      case True
      from True None "1.prems"(3) have "s = nat \<lfloor>r / pow10 (n - int k)\<rfloor>"
        by (subst (asm) shortest_digits.simps) auto
      moreover from scaled_at_least_one [OF "1.prems"(1,2)]
      have "1 \<le> nat \<lfloor>r / pow10 (n - int k)\<rfloor>" by linarith
      ultimately show ?thesis by (simp only:)
    next
      case False
      with None "1.prems"(3) have "shortest_digits (Suc k) r n = (s, k', n')"
        by (subst (asm) shortest_digits.simps) simp
      with "1.IH" [OF None False "1.prems"(1)] show ?thesis by simp
    qed
  qed
qed

lemma digits_of_leading:
  "1 \<le> s \<Longrightarrow> hd (digits_of s) \<noteq> CHR ''0''"
proof (induction s rule: digits_of.induct)
  case (1 n)
  show ?case
  proof (cases "n < 10")
    case True
    with "1.prems" have "n \<in> {1, 2, 3, 4, 5, 6, 7, 8, 9}" by auto
    then show ?thesis
      using True by (auto simp: digits_of_small digit_char_def)
  next
    case False
    then have "1 \<le> n div 10" by simp
    with "1.IH" False have "hd (digits_of (n div 10)) \<noteq> CHR ''0''" by simp
    with False digits_of_nonempty [of "n div 10"] show ?thesis
      by (simp add: digits_of_large hd_append)
  qed
qed

lemma format_decimal_not_zero:
  assumes "1 \<le> s"
  shows "format_decimal s k n \<noteq> ''0''"
proof -
  have ne: "digits_of s \<noteq> []"
    by (rule digits_of_nonempty)
  have h: "hd (digits_of s) \<noteq> CHR ''0''"
    using assms by (rule digits_of_leading)
  have a: "digits_of s @ xs \<noteq> ''0''" for xs
    using ne h by (cases "digits_of s") auto
  have b: "xs @ CHR ''.'' # ys \<noteq> ''0''" for xs ys
    by (cases xs) auto
  have c: "xs @ CHR ''e'' # ys \<noteq> ''0''" for xs ys
    by (cases xs) auto
  show ?thesis
    using a b c by (simp add: format_decimal_def Let_def)
qed

lemma positive_toString_not_zero:
  assumes "0 < r"
  shows "positive_toString r \<noteq> ''0''"
proof -
  obtain s k n where t: "shortest_digits 1 r (decimal_exponent r) = (s, k, n)"
    by (cases "shortest_digits 1 r (decimal_exponent r)") auto
  have "1 \<le> s"
    using decimal_exponent_lower [OF assms] _ t
    by (rule shortest_digits_positive) simp
  then have "format_decimal s k n \<noteq> ''0''"
    by (rule format_decimal_not_zero)
  with t show ?thesis
    by (simp add: positive_toString_def)
qed

lemma number_toString_not_minus_zero: "number_toString x \<noteq> ''-0''"
proof (cases x)
  case (Fin r)
  show ?thesis
  proof (cases "r < 0")
    case True
    then have "positive_toString (- r) \<noteq> ''0''"
      by (intro positive_toString_not_zero) simp
    with True show ?thesis
      by (simp add: Fin number_toString.simps)
  next
    case False
    with positive_toString_shape [of r] show ?thesis
      by (cases "positive_toString r") (auto simp: Fin number_toString.simps)
  qed
qed (simp_all add: number_toString.simps)

lemma display_inv_positive: "display_inv (positive_toString r)"
  using positive_toString_shape [of r]
  by (cases "positive_toString r") (simp_all add: display_inv_def starts_with_def)

lemma display_inv_negative: "display_inv (''-'' @ positive_toString r)"
  using positive_toString_shape [of r]
  by (cases "positive_toString r") (simp_all add: display_inv_def starts_with_def)

lemma display_inv_toString: "display_inv (number_toString x)"
proof (cases x)
  case (Fin r)
  show ?thesis
    unfolding Fin
    using display_inv_positive [of r] display_inv_negative [of "- r"]
    by (simp add: number_toString.simps display_inv_def starts_with_def)
qed (simp_all add: number_toString.simps display_inv_def starts_with_def)

lemma display_inv_append_digit:
  "display_inv s \<Longrightarrow> is_digit d \<Longrightarrow> display_inv (s @ [d])"
  by (cases s; cases "tl s") (auto simp: display_inv_def starts_with_def is_digit_def)

lemma display_inv_append_point:
  "display_inv s \<Longrightarrow> CHR ''.'' \<notin> set s \<Longrightarrow> display_inv (s @ ''.'')"
  by (cases s; cases "tl s") (auto simp: display_inv_def starts_with_def)

lemma display_inv_negated:
  "display_inv s \<Longrightarrow>
   display_inv (if starts_with ''-'' s then drop 1 s else ''-'' @ s)"
  by (cases s; cases "tl s") (auto simp: display_inv_def starts_with_def)

lemma display_inv_consts: "display_inv ''0''" "display_inv ''0.''"
  by (simp_all add: display_inv_def starts_with_def)

section \<open>The effect of each button on the fields\<close>

lemmas log_defs = debugLog_def log_call_def highOrLowWarningLog_def

lemma new_Calculator_fields:
  "lcd new_Calculator = ''0''" "arg new_Calculator = None" "lastOp new_Calculator = None"
  "overwrite new_Calculator = True" "repeat new_Calculator = False"
  "calLog new_Calculator = []"
  by (simp_all add: new_Calculator_def)

lemma digit_effect:
  "lcd (digit x c) = (if overwrite c then number_toString x else lcd c @ number_toString x)"
  "arg (digit x c) = arg c" "lastOp (digit x c) = lastOp c"
  "overwrite (digit x c) = False" "repeat (digit x c) = repeat c"
  by (simp_all add: digit_def log_defs Let_def)

lemma decimal_effect:
  "lcd (decimal c) = (if overwrite c then ''0.''
                      else if CHR ''.'' \<notin> set (lcd c) then lcd c @ ''.'' else lcd c)"
  "arg (decimal c) = arg c" "lastOp (decimal c) = lastOp c"
  "overwrite (decimal c) = False" "repeat (decimal c) = repeat c"
  by (simp_all add: decimal_def log_defs Let_def)

lemma negate_effect:
  "lcd (negate c) = (if overwrite c then ''0''
                     else if lcd c = ''0'' then ''0''
                     else if starts_with ''-'' (lcd c) then drop 1 (lcd c) else ''-'' @ lcd c)"
  "arg (negate c) = arg c" "lastOp (negate c) = lastOp c"
  "overwrite (negate c) = False" "repeat (negate c) = repeat c"
  by (simp_all add: negate_def log_defs Let_def)

lemma op_effect:
  "lcd (op oper c) =
     (if arg c = None \<or> repeat c then lcd c
      else case lastOp c of
             None \<Rightarrow> lcd c
           | Some Add \<Rightarrow> number_toString (number_add (ToNumber (arg c)) (parseFloat (lcd c)))
           | Some Sub \<Rightarrow> number_toString (number_subtract (ToNumber (arg c)) (parseFloat (lcd c)))
           | Some Mul \<Rightarrow> number_toString (number_multiply (ToNumber (arg c)) (parseFloat (lcd c)))
           | Some Div \<Rightarrow> number_toString (number_divide (ToNumber (arg c)) (parseFloat (lcd c))))"
  "arg (op oper c) = Some (parseFloat (lcd (op oper c)))"
  "lastOp (op oper c) = Some oper"
  "overwrite (op oper c) = True" "repeat (op oper c) = False"
  by (simp_all add: op_def log_defs Let_def split: option.splits Op.splits)

lemma equals_effect:
  "lcd (equals c) =
     (case lastOp c of
        None \<Rightarrow> lcd c
      | Some Add \<Rightarrow> number_toString (number_add (ToNumber (arg c)) (parseFloat (lcd c)))
      | Some Sub \<Rightarrow>
          if repeat c then number_toString (number_subtract (parseFloat (lcd c)) (ToNumber (arg c)))
          else number_toString (number_subtract (ToNumber (arg c)) (parseFloat (lcd c)))
      | Some Mul \<Rightarrow> number_toString (number_multiply (ToNumber (arg c)) (parseFloat (lcd c)))
      | Some Div \<Rightarrow>
          if strictly_equals_zero (arg c) then lcd c
          else number_toString (number_divide (ToNumber (arg c)) (parseFloat (lcd c))))"
  "arg (equals c) = (if repeat c then arg c else Some (parseFloat (lcd c)))"
  "lastOp (equals c) = lastOp c"
  "overwrite (equals c) = True" "repeat (equals c) = True"
  by (simp_all add: equals_def log_defs Let_def split: option.splits Op.splits)

lemma clear_effect:
  "lcd (clear c) = ''0''"
  "arg (clear c) = (if overwrite c then None else arg c)"
  "lastOp (clear c) = (if overwrite c then None else lastOp c)"
  "overwrite (clear c) = True"
  "repeat (clear c) = (if overwrite c then False else repeat c)"
  by (simp_all add: clear_def log_defs Let_def)

lemma square_effect:
  "lcd (square c) = number_toString (number_multiply (parseFloat (lcd c)) (parseFloat (lcd c)))"
  "arg (square c) = arg c" "lastOp (square c) = lastOp c"
  "overwrite (square c) = overwrite c" "repeat (square c) = repeat c"
  by (simp_all add: square_def log_defs Let_def)

lemma percent_effect:
  "lcd (percent c) = number_toString (number_divide (parseFloat (lcd c)) (Fin 100))"
  "arg (percent c) = arg c" "lastOp (percent c) = lastOp c"
  "overwrite (percent c) = overwrite c" "repeat (percent c) = repeat c"
  by (simp_all add: percent_def log_defs Let_def)

lemma square_value:
  "lcd (square c) =
     (case parseFloat (lcd c) of
        NaN \<Rightarrow> ''NaN''
      | PosInf \<Rightarrow> ''Infinity''
      | NegInf \<Rightarrow> ''Infinity''
      | NegZero \<Rightarrow> ''0''
      | Fin x \<Rightarrow> number_toString (fround False (x * x)))"
  by (cases "parseFloat (lcd c)")
     (simp_all add: square_effect number_multiply_def inf_of_def fround_zero zero_of_def
        number_toString.simps)

lemma percent_value:
  "lcd (percent c) =
     (case parseFloat (lcd c) of
        NaN \<Rightarrow> ''NaN''
      | PosInf \<Rightarrow> ''Infinity''
      | NegInf \<Rightarrow> ''-Infinity''
      | NegZero \<Rightarrow> ''0''
      | Fin x \<Rightarrow> number_toString (fround (x < 0) (x / 100)))"
  by (cases "parseFloat (lcd c)")
     (simp_all add: percent_effect number_divide_def inf_of_def fround_zero zero_of_def
        number_toString.simps)

lemma zero_dividend_quotient:
  assumes "is_zero a"
  shows "number_toString (number_divide a b) =
           (if b = NaN \<or> is_zero b then ''NaN'' else ''0'')"
proof -
  from assms have a: "a = NegZero \<or> a = Fin 0"
    by (cases a) simp_all
  then show ?thesis
    by (cases b)
       (auto simp: number_divide_def zero_of_def inf_of_def fround_zero number_toString.simps)
qed

lemma op_lcd_cases: "lcd (op oper c) = lcd c \<or> (\<exists>x. lcd (op oper c) = number_toString x)"
  by (auto simp: op_effect split: option.splits Op.splits)

lemma equals_lcd_cases: "lcd (equals c) = lcd c \<or> (\<exists>x. lcd (equals c) = number_toString x)"
  by (auto simp: equals_effect split: option.splits Op.splits)

lemma digit_button_lcd:
  "d \<le> 9 \<Longrightarrow>
   lcd (press (Digit d) c) = (if overwrite c then [digit_char d] else lcd c @ [digit_char d])"
  by (simp add: digit_effect number_toString_digit)

lemma negate_twice_restores:
  assumes "\<not> overwrite c" and "lcd c \<noteq> ''0''" and "lcd c \<noteq> ''-0''"
    and "\<not> starts_with ''--'' (lcd c)"
  shows "lcd (negate (negate c)) = lcd c"
proof (cases "starts_with ''-'' (lcd c)")
  case True
  then obtain r where r: "lcd c = CHR ''-'' # r"
    by (cases "lcd c") (simp_all add: starts_with_def)
  with assms have "r \<noteq> ''0''" and "\<not> starts_with ''-'' r"
    by (simp_all add: starts_with_def)
  with assms(1) r show ?thesis
    by (simp add: negate_effect starts_with_def)
next
  case False
  with assms show ?thesis
    by (simp add: negate_effect starts_with_def)
qed

section \<open>What sequences of button presses preserve\<close>

lemma run_Cons: "run (b # bs) c = run bs (press b c)"
  by (simp add: run_def)

lemma run_Nil: "run [] c = c"
  by (simp add: run_def)

lemma press_pending:
  assumes "lastOp c \<noteq> None \<longrightarrow> arg c \<noteq> None" and "repeat c \<longrightarrow> arg c \<noteq> None"
  shows "(lastOp (press b c) \<noteq> None \<longrightarrow> arg (press b c) \<noteq> None)
         \<and> (repeat (press b c) \<longrightarrow> arg (press b c) \<noteq> None)"
  using assms
  by (cases b)
     (simp_all add: digit_effect decimal_effect negate_effect op_effect equals_effect
        clear_effect square_effect percent_effect)

lemma run_pending:
  "(lastOp c \<noteq> None \<longrightarrow> arg c \<noteq> None) \<Longrightarrow> (repeat c \<longrightarrow> arg c \<noteq> None) \<Longrightarrow>
   (lastOp (run bs c) \<noteq> None \<longrightarrow> arg (run bs c) \<noteq> None)
   \<and> (repeat (run bs c) \<longrightarrow> arg (run bs c) \<noteq> None)"
proof (induction bs arbitrary: c)
  case Nil
  then show ?case by (simp add: run_def)
next
  case (Cons b bs)
  from press_pending [OF Cons.prems, of b]
  have "lastOp (press b c) \<noteq> None \<longrightarrow> arg (press b c) \<noteq> None"
    and "repeat (press b c) \<longrightarrow> arg (press b c) \<noteq> None"
    by blast+
  from Cons.IH [OF this] show ?case by (simp add: run_def)
qed

lemma press_display_inv:
  assumes "valid_button b" and "display_inv (lcd c)"
  shows "display_inv (lcd (press b c))"
proof (cases b)
  case (Digit d)
  with assms(1) have d: "d \<le> 9" by simp
  then have "is_digit (digit_char d)"
    by (simp add: digit_char_is_digit)
  with assms(2) d show ?thesis
    unfolding Digit
    by (simp add: digit_effect number_toString_digit display_inv_append_digit
          display_inv_toString [of "Fin (of_nat d)", simplified number_toString_digit [OF d]])
next
  case Decimal
  with assms(2) show ?thesis
    by (simp add: decimal_effect display_inv_consts display_inv_append_point)
next
  case Negate
  from display_inv_negated [OF assms(2)] assms(2) show ?thesis
    unfolding Negate by (simp add: negate_effect display_inv_consts)
next
  case (Operator oper)
  from op_lcd_cases [of oper c] assms(2) show ?thesis
    unfolding Operator by (auto simp: display_inv_toString)
next
  case Equals
  from equals_lcd_cases [of c] assms(2) show ?thesis
    unfolding Equals by (auto simp: display_inv_toString)
next
  case Clear
  then show ?thesis by (simp add: clear_effect display_inv_consts)
next
  case Square
  then show ?thesis by (simp add: square_effect display_inv_toString)
next
  case Percent
  then show ?thesis by (simp add: percent_effect display_inv_toString)
qed

lemma run_display_inv:
  "list_all valid_button bs \<Longrightarrow> display_inv (lcd c) \<Longrightarrow> display_inv (lcd (run bs c))"
proof (induction bs arbitrary: c)
  case Nil
  then show ?case by (simp add: run_Nil)
next
  case (Cons b bs)
  from Cons.prems have "valid_button b" and "list_all valid_button bs"
    by simp_all
  with Cons.IH [of "press b c"] press_display_inv [of b c] Cons.prems(2)
  show ?case by (simp add: run_Cons del: press.simps)
qed

lemma press_not_minus_zero:
  assumes "valid_button b" and "display_inv (lcd c)" and "lcd c \<noteq> ''-0''"
  shows "lcd (press b c) \<noteq> ''-0''"
proof (cases b)
  case (Digit d)
  with assms(1) have d: "d \<le> 9" by simp
  have "lcd c \<noteq> ''-''"
    using assms(2) by (auto simp: display_inv_def starts_with_def)
  then have "lcd c @ [x] \<noteq> ''-0''" for x
    by (cases "lcd c"; cases "tl (lcd c)") auto
  with d show ?thesis
    unfolding Digit by (simp add: digit_effect number_toString_digit)
next
  case Decimal
  have "lcd c @ ''.'' \<noteq> ''-0''"
    by (cases "lcd c"; cases "tl (lcd c)") auto
  with assms(3) show ?thesis
    unfolding Decimal by (simp add: decimal_effect)
next
  case Negate
  have "drop 1 (lcd c) \<noteq> ''-0''" if "starts_with ''-'' (lcd c)"
    using that assms(2)
    by (cases "lcd c"; cases "tl (lcd c)") (auto simp: display_inv_def starts_with_def)
  with assms(3) show ?thesis
    unfolding Negate by (simp add: negate_effect)
next
  case (Operator oper)
  from op_lcd_cases [of oper c] assms(3) show ?thesis
    unfolding Operator by (auto simp: number_toString_not_minus_zero)
next
  case Equals
  from equals_lcd_cases [of c] assms(3) show ?thesis
    unfolding Equals by (auto simp: number_toString_not_minus_zero)
next
  case Clear
  then show ?thesis by (simp add: clear_effect)
next
  case Square
  then show ?thesis by (simp add: square_effect number_toString_not_minus_zero)
next
  case Percent
  then show ?thesis by (simp add: percent_effect number_toString_not_minus_zero)
qed

lemma run_not_minus_zero:
  "list_all valid_button bs \<Longrightarrow> display_inv (lcd c) \<Longrightarrow> lcd c \<noteq> ''-0'' \<Longrightarrow>
   lcd (run bs c) \<noteq> ''-0''"
proof (induction bs arbitrary: c)
  case Nil
  then show ?case by (simp add: run_Nil)
next
  case (Cons b bs)
  from Cons.prems have v: "valid_button b" and vs: "list_all valid_button bs"
    by simp_all
  from press_display_inv [OF v Cons.prems(2)] press_not_minus_zero [OF v Cons.prems(2,3)]
    Cons.IH [OF vs, of "press b c"]
  show ?case by (simp add: run_Cons del: press.simps)
qed

lemma run_digits_append:
  "\<not> overwrite c \<Longrightarrow> list_all (\<lambda>d. d \<le> 9) ds \<Longrightarrow>
   lcd (run (map Digit ds) c) = lcd c @ map digit_char ds"
proof (induction ds arbitrary: c)
  case Nil
  then show ?case by (simp add: run_Nil)
next
  case (Cons d ds)
  have "\<not> overwrite (press (Digit d) c)"
    by (simp add: digit_effect)
  moreover from Cons.prems have "list_all (\<lambda>d. d \<le> 9) ds" and "d \<le> 9"
    by simp_all
  ultimately show ?case
    using Cons.IH [of "press (Digit d) c"] Cons.prems(1)
    by (simp add: run_Cons digit_button_lcd del: press.simps)
qed

section \<open>The claims\<close>

subsection \<open>Equals with a pending division and a zero operand\<close>

text \<open>
  Claim C1, as stated: when \<^verbatim>\<open>equals()\<close> is pressed with a pending division and \<open>arg\<close>
  equal to 0, the calculator logs an error but still divides and displays the quotient, as
  \<^verbatim>\<open>op\<close> does. It fails after \<^verbatim>\<open>digit(0)\<close>, \<^verbatim>\<open>op(Div)\<close>, \<^verbatim>\<open>digit(5)\<close>: the quotient
  \<open>0 / 5\<close> would be displayed as \<open>0\<close>, but \<^verbatim>\<open>equals()\<close> leaves the display at \<open>5\<close>.
\<close>

theorem equals_zero_operand_counterexample:
  "lastOp (digit (Fin 5) (op Div (digit (Fin 0) new_Calculator))) = Some Div
   \<and> arg (digit (Fin 5) (op Div (digit (Fin 0) new_Calculator))) = Some (Fin 0)
   \<and> parseFloat (lcd (digit (Fin 5) (op Div (digit (Fin 0) new_Calculator)))) = Fin 5
   \<and> number_toString (number_divide (Fin 0) (Fin 5)) = ''0''
   \<and> lcd (equals (digit (Fin 5) (op Div (digit (Fin 0) new_Calculator)))) = ''5''"
proof -
  define c1 where "c1 = digit (Fin 0) new_Calculator"
  define c2 where "c2 = op Div c1"
  define c3 where "c3 = digit (Fin 5) c2"
  have s1: "lcd c1 = ''0''" "arg c1 = None"
    by (simp_all add: c1_def digit_effect new_Calculator_fields toString_digits)
  have s2: "arg c2 = Some (Fin 0)" "lastOp c2 = Some Div" "overwrite c2"
    by (simp_all add: c2_def op_effect s1 parseFloat_digits)
  have s3: "lcd c3 = ''5''" "arg c3 = Some (Fin 0)" "lastOp c3 = Some Div"
    by (simp_all add: c3_def digit_effect s2 toString_digits)
  have q: "number_divide (Fin 0) (Fin 5) = Fin 0"
    by (simp add: number_divide_def fround_zero zero_of_def)
  have s4: "lcd (equals c3) = ''5''"
    by (simp add: equals_effect s3)
  show ?thesis
    using s3 s4 by (simp add: c3_def c2_def c1_def q toString_digits parseFloat_digits)
qed

text \<open>
  Claim C1, amended: when \<^verbatim>\<open>equals()\<close> is pressed with a pending division and \<open>arg\<close>
  equal to 0, the calculator logs the error and does not divide: the display stays as it
  is, while \<open>repeat\<close> and \<open>overwrite\<close> are set as after any \<^verbatim>\<open>equals()\<close>. Only
  \<^verbatim>\<open>op\<close>, in the same state and outside repeat mode, logs the error and still divides and
  displays the quotient, which with a zero dividend reads \<open>0\<close> or \<open>NaN\<close>.
\<close>

theorem division_by_zero_operand:
  assumes "lastOp c = Some Div" and "strictly_equals_zero (arg c)"
  shows "lcd (equals c) = lcd c
         \<and> repeat (equals c) \<and> overwrite (equals c)
         \<and> lastOp (equals c) = Some Div
         \<and> arg (equals c) = (if repeat c then arg c else Some (parseFloat (lcd c)))
         \<and> calLog (equals c) =
             calLog c @ [(Debug, ''Button pressed.''),
                         (Error, ''Divison by zero is not supported.''),
                         (Info, ''Overwrite is now enabled.'')]
         \<and> (\<not> repeat c \<longrightarrow>
               lcd (op oper c) =
                 (if parseFloat (lcd c) = NaN \<or> is_zero (parseFloat (lcd c))
                  then ''NaN'' else ''0'')
               \<and> lcd (op oper c) =
                   number_toString (number_divide (ToNumber (arg c)) (parseFloat (lcd c)))
               \<and> overwrite (op oper c) \<and> \<not> repeat (op oper c)
               \<and> lastOp (op oper c) = Some oper
               \<and> arg (op oper c) = Some (parseFloat (lcd (op oper c)))
               \<and> calLog (op oper c) =
                   calLog c @ [(Debug, ''Button pressed.''),
                               (Error, ''Divison by zero is not supported.'')]
                   @ (if number_ge (parseFloat (lcd (op oper c))) MAX_SAFE_INTEGER then
                        [(Warn, ''Number is greater than the maximum number'')]
                      else if number_le (parseFloat (lcd (op oper c))) MIN_SAFE_INTEGER then
                        [(Warn, ''Number is less than the maximum number'')]
                      else []))"
proof -
  from assms(2) obtain a where present: "arg c = Some a" and zero: "is_zero a"
    by (cases "arg c") simp_all
  have e: "lcd (equals c) = lcd c" "repeat (equals c)" "overwrite (equals c)"
    "lastOp (equals c) = Some Div"
    "arg (equals c) = (if repeat c then arg c else Some (parseFloat (lcd c)))"
    using assms by (simp_all add: equals_effect)
  have el: "calLog (equals c) =
             calLog c @ [(Debug, ''Button pressed.''),
                         (Error, ''Divison by zero is not supported.''),
                         (Info, ''Overwrite is now enabled.'')]"
    using assms by (simp add: equals_def log_defs Let_def)
  have o: "\<not> repeat c \<longrightarrow>
               lcd (op oper c) =
                 number_toString (number_divide (ToNumber (arg c)) (parseFloat (lcd c)))"
    using assms present by (simp add: op_effect)
  have ov: "\<not> repeat c \<longrightarrow>
               lcd (op oper c) =
                   (if parseFloat (lcd c) = NaN \<or> is_zero (parseFloat (lcd c))
                    then ''NaN'' else ''0'')"
    using o zero_dividend_quotient [OF zero, of "parseFloat (lcd c)"] present by simp
  have of: "overwrite (op oper c)" "\<not> repeat (op oper c)" "lastOp (op oper c) = Some oper"
    "arg (op oper c) = Some (parseFloat (lcd (op oper c)))"
    by (simp_all add: op_effect(2-5))
  have ol: "\<not> repeat c \<longrightarrow> calLog (op oper c) =
                   calLog c @ [(Debug, ''Button pressed.''),
                               (Error, ''Divison by zero is not supported.'')]
                   @ (if number_ge (parseFloat (lcd (op oper c))) MAX_SAFE_INTEGER then
                        [(Warn, ''Number is greater than the maximum number'')]
                      else if number_le (parseFloat (lcd (op oper c))) MIN_SAFE_INTEGER then
                        [(Warn, ''Number is less than the maximum number'')]
                      else [])"
    using assms present by (simp add: op_def log_defs Let_def)
  from e el o ov of ol show ?thesis by blast
qed

theorem division_by_zero_operand_witness:
  "lastOp (digit (Fin 5) (op Div (digit (Fin 0) new_Calculator))) = Some Div
   \<and> strictly_equals_zero (arg (digit (Fin 5) (op Div (digit (Fin 0) new_Calculator))))
   \<and> \<not> repeat (digit (Fin 5) (op Div (digit (Fin 0) new_Calculator)))
   \<and> \<not> overwrite (digit (Fin 5) (op Div (digit (Fin 0) new_Calculator)))
   \<and> lcd (equals (digit (Fin 5) (op Div (digit (Fin 0) new_Calculator)))) = ''5''
   \<and> repeat (equals (digit (Fin 5) (op Div (digit (Fin 0) new_Calculator))))
   \<and> overwrite (equals (digit (Fin 5) (op Div (digit (Fin 0) new_Calculator))))
   \<and> arg (equals (digit (Fin 5) (op Div (digit (Fin 0) new_Calculator)))) = Some (Fin 5)
   \<and> calLog (equals (digit (Fin 5) (op Div (digit (Fin 0) new_Calculator)))) =
       [(Debug, ''Button pressed.''), (Debug, ''Button pressed.''),
        (Debug, ''Button pressed.''), (Debug, ''Button pressed.''),
        (Error, ''Divison by zero is not supported.''),
        (Info, ''Overwrite is now enabled.'')]
   \<and> lcd (op Add (digit (Fin 5) (op Div (digit (Fin 0) new_Calculator)))) = ''0''
   \<and> calLog (op Add (digit (Fin 5) (op Div (digit (Fin 0) new_Calculator)))) =
       [(Debug, ''Button pressed.''), (Debug, ''Button pressed.''),
        (Debug, ''Button pressed.''), (Debug, ''Button pressed.''),
        (Error, ''Divison by zero is not supported.'')]"
proof -
  define c1 where "c1 = digit (Fin 0) new_Calculator"
  define c2 where "c2 = op Div c1"
  define c3 where "c3 = digit (Fin 5) c2"
  have s1: "lcd c1 = ''0''" "arg c1 = None" "\<not> overwrite c1"
    by (simp_all add: c1_def digit_effect new_Calculator_fields toString_digits)
  have l1: "calLog c1 = [(Debug, ''Button pressed.'')]"
    by (simp add: c1_def digit_def log_defs Let_def new_Calculator_def toString_digits
          parseFloat_digits number_ge_def number_le_def number_lessThan_def
          MAX_SAFE_INTEGER_def MIN_SAFE_INTEGER_def)
  have s2: "lcd c2 = ''0''" "arg c2 = Some (Fin 0)" "lastOp c2 = Some Div" "overwrite c2"
    "\<not> repeat c2"
    by (simp_all add: c2_def op_effect s1 parseFloat_digits)
  have l2: "calLog c2 = [(Debug, ''Button pressed.''), (Debug, ''Button pressed.'')]"
    using s1 l1 by (simp add: c2_def op_def log_defs Let_def)
  have s3: "lcd c3 = ''5''" "arg c3 = Some (Fin 0)" "lastOp c3 = Some Div" "\<not> repeat c3"
    "\<not> overwrite c3"
    by (simp_all add: c3_def digit_effect s2 toString_digits)
  have l3: "calLog c3 = [(Debug, ''Button pressed.''), (Debug, ''Button pressed.''),
                         (Debug, ''Button pressed.'')]"
    using s2 l2
    by (simp add: c3_def digit_def log_defs Let_def toString_digits
          parseFloat_digits number_ge_def number_le_def number_lessThan_def
          MAX_SAFE_INTEGER_def MIN_SAFE_INTEGER_def)
  have z: "strictly_equals_zero (arg c3)"
    by (simp add: s3)
  from division_by_zero_operand [OF s3(3) z, of Add] s3 l3 z
  have "lastOp c3 = Some Div \<and> strictly_equals_zero (arg c3) \<and> \<not> repeat c3
        \<and> \<not> overwrite c3
        \<and> lcd (equals c3) = ''5'' \<and> repeat (equals c3) \<and> overwrite (equals c3)
        \<and> arg (equals c3) = Some (Fin 5)
        \<and> calLog (equals c3) =
            [(Debug, ''Button pressed.''), (Debug, ''Button pressed.''),
             (Debug, ''Button pressed.''), (Debug, ''Button pressed.''),
             (Error, ''Divison by zero is not supported.''),
             (Info, ''Overwrite is now enabled.'')]
        \<and> lcd (op Add c3) = ''0''
        \<and> calLog (op Add c3) =
            [(Debug, ''Button pressed.''), (Debug, ''Button pressed.''),
             (Debug, ''Button pressed.''), (Debug, ''Button pressed.''),
             (Error, ''Divison by zero is not supported.'')]"
    by (simp add: parseFloat_digits number_ge_def number_le_def number_lessThan_def
          MAX_SAFE_INTEGER_def MIN_SAFE_INTEGER_def)
  then show ?thesis
    by (simp add: c3_def c2_def c1_def)
qed

subsection \<open>Repeating a subtraction or a division\<close>

text \<open>
  Claim C2: in repeat mode \<^verbatim>\<open>equals()\<close> computes \<open>display OP arg\<close> for subtraction and
  division. The subtraction does; the division does not. After \<^verbatim>\<open>digit(8)\<close>,
  \<^verbatim>\<open>op(Div)\<close>, \<^verbatim>\<open>digit(2)\<close>, \<^verbatim>\<open>equals()\<close> the display is \<open>4\<close> and \<open>arg\<close> is 2; the claim
  has the next \<^verbatim>\<open>equals()\<close> display \<open>4 / 2\<close>, which is \<open>2\<close>, and the calculator displays
  \<open>2 / 4\<close>, which is \<open>0.5\<close>.
\<close>

theorem repeated_division_swaps_operands:
  "lcd (equals (digit (Fin 2) (op Div (digit (Fin 8) new_Calculator)))) = ''4''
   \<and> arg (equals (digit (Fin 2) (op Div (digit (Fin 8) new_Calculator)))) = Some (Fin 2)
   \<and> lastOp (equals (digit (Fin 2) (op Div (digit (Fin 8) new_Calculator)))) = Some Div
   \<and> repeat (equals (digit (Fin 2) (op Div (digit (Fin 8) new_Calculator))))
   \<and> number_toString (number_divide (Fin 4) (Fin 2)) = ''2''
   \<and> lcd (equals (equals (digit (Fin 2) (op Div (digit (Fin 8) new_Calculator))))) = ''0.5''"
proof -
  define c1 where "c1 = digit (Fin 8) new_Calculator"
  define c2 where "c2 = op Div c1"
  define c3 where "c3 = digit (Fin 2) c2"
  define c4 where "c4 = equals c3"
  have s1: "lcd c1 = ''8''" "arg c1 = None"
    by (simp_all add: c1_def digit_effect new_Calculator_fields toString_digits)
  have s2: "arg c2 = Some (Fin 8)" "lastOp c2 = Some Div" "overwrite c2" "\<not> repeat c2"
    by (simp_all add: c2_def op_effect s1 parseFloat_digits)
  have s3: "lcd c3 = ''2''" "arg c3 = Some (Fin 8)" "lastOp c3 = Some Div" "\<not> repeat c3"
    by (simp_all add: c3_def digit_effect s2 toString_digits)
  have q1: "number_divide (Fin 8) (Fin 2) = Fin 4"
    by (simp add: number_divide_def fround_numeral)
  have q2: "number_divide (Fin 4) (Fin 2) = Fin 2"
    by (simp add: number_divide_def fround_numeral)
  have q3: "number_divide (Fin 2) (Fin 4) = Fin (1 / 2)"
    by (simp add: number_divide_def fround_half)
  have s4: "lcd c4 = ''4''" "arg c4 = Some (Fin 2)" "lastOp c4 = Some Div" "repeat c4"
    by (simp_all add: c4_def equals_effect s3 parseFloat_digits q1 toString_digits)
  have s5: "lcd (equals c4) = ''0.5''"
    by (simp add: equals_effect s4 parseFloat_digits q3 toString_half)
  show ?thesis
    using s4 s5 by (simp add: c4_def c3_def c2_def c1_def q2 toString_digits)
qed

subsection \<open>Pending operand, pending operator and repeat mode\<close>

text \<open>
  Claim C3, as the specification states it: in every state reached from the initial state
  by button presses, \<open>arg\<close> and \<open>lastOp\<close> are both absent or both present, and \<open>repeat\<close>
  implies both are present. It fails after a single \<^verbatim>\<open>equals()\<close> in the initial state:
  no operator is pending, yet \<open>arg\<close> takes the value of the display and \<open>repeat\<close> is set.
\<close>

theorem operand_without_operator_counterexample:
  "arg (run [Equals] new_Calculator) = Some (Fin 0)
   \<and> lastOp (run [Equals] new_Calculator) = None
   \<and> repeat (run [Equals] new_Calculator)"
  by (simp add: run_def equals_effect new_Calculator_fields parseFloat_digits)

text \<open>
  Claim C3, amended: in every state reached from the initial state by button presses, a
  present \<open>lastOp\<close> implies a present \<open>arg\<close>, and \<open>repeat\<close> implies a present \<open>arg\<close>.
\<close>

theorem operator_needs_operand:
  "(lastOp (run bs new_Calculator) \<noteq> None \<longrightarrow> arg (run bs new_Calculator) \<noteq> None)
   \<and> (repeat (run bs new_Calculator) \<longrightarrow> arg (run bs new_Calculator) \<noteq> None)"
  by (rule run_pending) (simp_all add: new_Calculator_fields)

theorem operator_needs_operand_witness:
  "lastOp (run [Digit 2, Operator Add] new_Calculator) \<noteq> None
   \<and> arg (run [Digit 2, Operator Add] new_Calculator) \<noteq> None
   \<and> repeat (run [Equals] new_Calculator)
   \<and> arg (run [Equals] new_Calculator) \<noteq> None"
proof -
  have a: "lastOp (run [Digit 2, Operator Add] new_Calculator) \<noteq> None"
    by (simp add: run_def op_effect)
  have b: "repeat (run [Equals] new_Calculator)"
    by (simp add: run_def equals_effect)
  from a b operator_needs_operand [of "[Digit 2, Operator Add]"]
    operator_needs_operand [of "[Equals]"]
  show ?thesis by blast
qed

subsection \<open>Clearing\<close>

text \<open>
  Claim C4, as the specification states it: for every state a single \<^verbatim>\<open>clear()\<close> leaves
  \<open>arg\<close>, \<open>lastOp\<close> and \<open>repeat\<close> intact. It fails in a state that is already in overwrite
  mode: after \<^verbatim>\<open>digit(2)\<close>, \<^verbatim>\<open>op(Add)\<close> the first \<^verbatim>\<open>clear()\<close> already drops the pending
  operand and operator.
\<close>

theorem single_clear_counterexample:
  "overwrite (op Add (digit (Fin 2) new_Calculator))
   \<and> arg (op Add (digit (Fin 2) new_Calculator)) = Some (Fin 2)
   \<and> lastOp (op Add (digit (Fin 2) new_Calculator)) = Some Add
   \<and> arg (clear (op Add (digit (Fin 2) new_Calculator))) = None
   \<and> lastOp (clear (op Add (digit (Fin 2) new_Calculator))) = None"
  by (simp add: clear_effect op_effect digit_effect new_Calculator_fields toString_digits
        parseFloat_digits)

text \<open>
  Claim C4, amended: for every state that is not in overwrite mode, a single \<^verbatim>\<open>clear()\<close>
  only sets the display to \<open>0\<close> and enables overwrite mode, leaving \<open>arg\<close>, \<open>lastOp\<close> and
  \<open>repeat\<close> intact; a \<^verbatim>\<open>clear()\<close> made in overwrite mode resets \<open>arg\<close> and \<open>lastOp\<close> to
  absent and \<open>repeat\<close> to false; so from every state two presses in a row do the full
  reset.
\<close>

theorem clear_by_mode:
  "(\<not> overwrite c \<longrightarrow>
      lcd (clear c) = ''0'' \<and> overwrite (clear c) \<and> arg (clear c) = arg c
      \<and> lastOp (clear c) = lastOp c \<and> repeat (clear c) = repeat c)
   \<and> (overwrite c \<longrightarrow>
      lcd (clear c) = ''0'' \<and> overwrite (clear c) \<and> arg (clear c) = None
      \<and> lastOp (clear c) = None \<and> \<not> repeat (clear c))
   \<and> lcd (clear (clear c)) = ''0'' \<and> overwrite (clear (clear c))
   \<and> arg (clear (clear c)) = None \<and> lastOp (clear (clear c)) = None
   \<and> \<not> repeat (clear (clear c))"
  by (simp add: clear_effect)

theorem clear_by_mode_witness:
  "\<not> overwrite (digit (Fin 4) (op Add (digit (Fin 2) new_Calculator)))
   \<and> lcd (clear (digit (Fin 4) (op Add (digit (Fin 2) new_Calculator)))) = ''0''
   \<and> arg (clear (digit (Fin 4) (op Add (digit (Fin 2) new_Calculator)))) = Some (Fin 2)
   \<and> lastOp (clear (digit (Fin 4) (op Add (digit (Fin 2) new_Calculator)))) = Some Add
   \<and> overwrite (op Add (digit (Fin 2) new_Calculator))
   \<and> arg (clear (op Add (digit (Fin 2) new_Calculator))) = None
   \<and> lastOp (clear (op Add (digit (Fin 2) new_Calculator))) = None
   \<and> arg (clear (clear (digit (Fin 4) (op Add (digit (Fin 2) new_Calculator))))) = None"
proof -
  have a: "\<not> overwrite (digit (Fin 4) (op Add (digit (Fin 2) new_Calculator)))"
    by (simp add: digit_effect)
  have b: "overwrite (op Add (digit (Fin 2) new_Calculator))"
    by (simp add: op_effect)
  have c: "arg (digit (Fin 4) (op Add (digit (Fin 2) new_Calculator))) = Some (Fin 2)"
    "lastOp (digit (Fin 4) (op Add (digit (Fin 2) new_Calculator))) = Some Add"
    by (simp_all add: op_effect digit_effect new_Calculator_fields toString_digits
          parseFloat_digits)
  from a b c clear_by_mode [of "digit (Fin 4) (op Add (digit (Fin 2) new_Calculator))"]
    clear_by_mode [of "op Add (digit (Fin 2) new_Calculator)"]
  show ?thesis by simp
qed

subsection \<open>The display string\<close>

text \<open>
  Claim C5, as stated: in every state reached by button presses the display is a valid
  numeric string (not empty, an optional leading minus sign, at most one decimal point)
  that parses to a finite number. It fails after \<^verbatim>\<open>digit(2)\<close>, \<^verbatim>\<open>op(Div)\<close>, \<^verbatim>\<open>digit(0)\<close>,
  \<^verbatim>\<open>op(Add)\<close>: \<open>arg\<close> is 2, so no error is logged, and the quotient \<open>2 / 0\<close> is displayed
  as \<open>Infinity\<close>.
\<close>

theorem display_not_finite_counterexample:
  "lcd (run [Digit 2, Operator Div, Digit 0, Operator Add] new_Calculator) = ''Infinity''
   \<and> parseFloat ''Infinity'' = PosInf
   \<and> \<not> spec_valid_display
          (lcd (run [Digit 2, Operator Div, Digit 0, Operator Add] new_Calculator))"
proof -
  define c1 where "c1 = digit (Fin 2) new_Calculator"
  define c2 where "c2 = op Div c1"
  define c3 where "c3 = digit (Fin 0) c2"
  define c4 where "c4 = op Add c3"
  have s1: "lcd c1 = ''2''" "arg c1 = None"
    by (simp_all add: c1_def digit_effect new_Calculator_fields toString_digits)
  have s2: "arg c2 = Some (Fin 2)" "lastOp c2 = Some Div" "overwrite c2" "\<not> repeat c2"
    by (simp_all add: c2_def op_effect s1 parseFloat_digits)
  have s3: "lcd c3 = ''0''" "arg c3 = Some (Fin 2)" "lastOp c3 = Some Div" "\<not> repeat c3"
    by (simp_all add: c3_def digit_effect s2 toString_digits)
  have q: "number_divide (Fin 2) (Fin 0) = PosInf"
    by (simp add: number_divide_def inf_of_def)
  have s4: "lcd c4 = ''Infinity''"
    by (simp add: c4_def op_effect s3 parseFloat_digits q number_toString.simps)
  have r: "run [Digit 2, Operator Div, Digit 0, Operator Add] new_Calculator = c4"
    by (simp add: run_def c4_def c3_def c2_def c1_def)
  have bad: "\<not> spec_valid_display ''Infinity''"
    by (simp add: spec_valid_display_def starts_with_def is_digit_def)
  show ?thesis
    using bad by (simp add: r s4 parseFloat_Infinity)
qed

text \<open>
  Claim C5, amended: in every state reached from the initial state by button presses (digit
  buttons passing 0 to 9) the display is not empty, contains at most one decimal point, and
  where it begins with a minus sign the next character exists and is not a minus sign.
\<close>

theorem display_shape:
  assumes "list_all valid_button bs"
  shows "lcd (run bs new_Calculator) \<noteq> []
         \<and> count_list (lcd (run bs new_Calculator)) (CHR ''.'') \<le> 1
         \<and> (starts_with ''-'' (lcd (run bs new_Calculator)) \<longrightarrow>
               tl (lcd (run bs new_Calculator)) \<noteq> []
               \<and> \<not> starts_with ''-'' (tl (lcd (run bs new_Calculator))))"
proof -
  have "display_inv (lcd new_Calculator)"
    by (simp add: new_Calculator_fields display_inv_consts)
  from run_display_inv [OF assms this] show ?thesis
    by (simp add: display_inv_def)
qed

theorem display_shape_witness:
  "list_all valid_button [Digit 2, Decimal, Digit 5, Negate]
   \<and> lcd (run [Digit 2, Decimal, Digit 5, Negate] new_Calculator) = ''-2.5''
   \<and> lcd (run [Digit 2, Decimal, Digit 5, Negate] new_Calculator) \<noteq> []
   \<and> count_list (lcd (run [Digit 2, Decimal, Digit 5, Negate] new_Calculator)) (CHR ''.'') \<le> 1
   \<and> starts_with ''-'' (lcd (run [Digit 2, Decimal, Digit 5, Negate] new_Calculator))
   \<and> tl (lcd (run [Digit 2, Decimal, Digit 5, Negate] new_Calculator)) \<noteq> []
   \<and> \<not> starts_with ''-'' (tl (lcd (run [Digit 2, Decimal, Digit 5, Negate] new_Calculator)))"
proof -
  have v: "list_all valid_button [Digit 2, Decimal, Digit 5, Negate]"
    by simp
  have l: "lcd (run [Digit 2, Decimal, Digit 5, Negate] new_Calculator) = ''-2.5''"
    by (simp add: run_def negate_effect digit_effect decimal_effect new_Calculator_fields
          toString_digits starts_with_def)
  have m: "starts_with ''-'' (lcd (run [Digit 2, Decimal, Digit 5, Negate] new_Calculator))"
    by (simp add: l starts_with_def)
  from display_shape [OF v] v l m show ?thesis
    by simp
qed

subsection \<open>Chained operators\<close>

text \<open>
  Claim C6: from the initial state, \<^verbatim>\<open>digit(2)\<close>, \<^verbatim>\<open>op(Add)\<close>, \<^verbatim>\<open>digit(4)\<close>,
  \<^verbatim>\<open>op(Add)\<close> leaves the display reading \<open>6\<close>, with \<open>arg\<close> the number 6 and \<open>lastOp\<close> the
  addition.
\<close>

theorem chained_add_collapse:
  "lcd (op Add (digit (Fin 4) (op Add (digit (Fin 2) new_Calculator)))) = ''6''
   \<and> arg (op Add (digit (Fin 4) (op Add (digit (Fin 2) new_Calculator)))) = Some (Fin 6)
   \<and> lastOp (op Add (digit (Fin 4) (op Add (digit (Fin 2) new_Calculator)))) = Some Add"
proof -
  define c1 where "c1 = digit (Fin 2) new_Calculator"
  define c2 where "c2 = op Add c1"
  define c3 where "c3 = digit (Fin 4) c2"
  define c4 where "c4 = op Add c3"
  have s1: "lcd c1 = ''2''" "arg c1 = None" "repeat c1 = False"
    by (simp_all add: c1_def digit_effect new_Calculator_fields toString_digits)
  have s2: "arg c2 = Some (Fin 2)" "lastOp c2 = Some Add" "overwrite c2" "repeat c2 = False"
    by (simp_all add: c2_def op_effect s1 parseFloat_digits)
  have s3: "lcd c3 = ''4''" "arg c3 = Some (Fin 2)" "lastOp c3 = Some Add" "repeat c3 = False"
    by (simp_all add: c3_def digit_effect s2 toString_digits)
  have sum: "number_add (Fin 2) (Fin 4) = Fin 6"
    by (simp add: number_add_def fround_numeral)
  have s4: "lcd c4 = ''6''" "arg c4 = Some (Fin 6)" "lastOp c4 = Some Add"
    by (simp_all add: c4_def op_effect s3 parseFloat_digits sum toString_digits)
  show ?thesis
    using s4 by (simp add: c4_def c3_def c2_def c1_def)
qed

subsection \<open>Typing digits\<close>

text \<open>
  Claim C7: for every non-empty sequence of \<^verbatim>\<open>digit(d)\<close> calls with each \<open>d\<close> an integer
  from 0 to 9, begun in overwrite mode, the display afterwards is the digits typed, in
  order: the first digit replaces the display and each later one is appended.
\<close>

theorem digits_concatenate:
  assumes "overwrite c" and "ds \<noteq> []" and "list_all (\<lambda>d. d \<le> 9) ds"
  shows "lcd (run (map Digit ds) c) = map digit_char ds"
proof (cases ds)
  case Nil
  with assms(2) show ?thesis by simp
next
  case (Cons d ds')
  with assms(3) have d: "d \<le> 9" and ds': "list_all (\<lambda>d. d \<le> 9) ds'"
    by simp_all
  have "\<not> overwrite (press (Digit d) c)"
    by (simp add: digit_effect)
  from run_digits_append [OF this ds'] d assms(1) show ?thesis
    by (simp add: Cons run_Cons digit_button_lcd del: press.simps)
qed

theorem digits_concatenate_witness:
  "overwrite new_Calculator \<and> [7, 0] \<noteq> ([] :: nat list)
   \<and> list_all (\<lambda>d. d \<le> 9) [7, 0 :: nat]
   \<and> lcd (run (map Digit [7, 0]) new_Calculator) = ''70''"
proof -
  have a: "overwrite new_Calculator"
    by (simp add: new_Calculator_fields)
  have b: "[7, 0] \<noteq> ([] :: nat list)" and c: "list_all (\<lambda>d. d \<le> 9) [7, 0 :: nat]"
    by simp_all
  from digits_concatenate [OF a b c] a show ?thesis
    by (simp add: digit_char_def)
qed

subsection \<open>Negating twice\<close>

text \<open>
  Two calls of \<^verbatim>\<open>negate()\<close> restore every display that reads as a number other than
  zero, and every display other than \<open>0\<close> that the buttons produce.
\<close>

lemma negate_twice_nonzero_value:
  assumes "\<not> overwrite c" and "parseFloat (lcd c) \<noteq> NaN" and "\<not> is_zero (parseFloat (lcd c))"
  shows "lcd (negate (negate c)) = lcd c"
proof (rule negate_twice_restores [OF assms(1)])
  show "lcd c \<noteq> ''0''"
    using assms(3) by (auto simp: parseFloat_digits)
  show "lcd c \<noteq> ''-0''"
    using assms(3) by (auto simp: parseFloat_minus_zero)
  show "\<not> starts_with ''--'' (lcd c)"
  proof
    assume "starts_with ''--'' (lcd c)"
    then obtain r where "lcd c = CHR ''-'' # CHR ''-'' # r"
      by (cases "lcd c"; cases "tl (lcd c)") (simp_all add: starts_with_def)
    with assms(2) show False
      by (simp add: parseFloat_double_minus)
  qed
qed

lemma negate_twice_reachable:
  assumes "list_all valid_button bs" and "\<not> overwrite (run bs new_Calculator)"
    and "lcd (run bs new_Calculator) \<noteq> ''0''"
  shows "lcd (negate (negate (run bs new_Calculator))) = lcd (run bs new_Calculator)"
proof (rule negate_twice_restores [OF assms(2,3)])
  have i: "display_inv (lcd new_Calculator)"
    by (simp add: new_Calculator_fields display_inv_consts)
  have z: "lcd new_Calculator \<noteq> ''-0''"
    by (simp add: new_Calculator_fields)
  from run_not_minus_zero [OF assms(1) i z]
  show "lcd (run bs new_Calculator) \<noteq> ''-0''" .
  from run_display_inv [OF assms(1) i]
  show "\<not> starts_with ''--'' (lcd (run bs new_Calculator))"
    by (cases "lcd (run bs new_Calculator)"; cases "tl (lcd (run bs new_Calculator))")
       (auto simp: display_inv_def starts_with_def)
qed

text \<open>
  Claim C8: for every state outside overwrite mode whose display is not \<open>0\<close>, two calls of
  \<^verbatim>\<open>negate()\<close> restore the display, and a single \<^verbatim>\<open>negate()\<close> leaves a display of exactly
  \<open>0\<close> unchanged. The states are those reached from the initial state by button presses
  (digit buttons passing 0 to 9), and any state at all whose display reads as a number
  other than zero; in each a single \<^verbatim>\<open>negate()\<close> strips a leading minus sign or puts one
  in front.
\<close>

theorem negate_twice:
  "(list_all valid_button bs \<and> \<not> overwrite (run bs new_Calculator)
      \<and> lcd (run bs new_Calculator) \<noteq> ''0''
      \<longrightarrow> lcd (negate (negate (run bs new_Calculator))) = lcd (run bs new_Calculator))
   \<and> (\<not> overwrite c \<and> parseFloat (lcd c) \<noteq> NaN \<and> \<not> is_zero (parseFloat (lcd c))
      \<longrightarrow> lcd (negate (negate c)) = lcd c)
   \<and> (\<not> overwrite c \<and> lcd c \<noteq> ''0''
      \<longrightarrow> lcd (negate c) =
            (if starts_with ''-'' (lcd c) then drop 1 (lcd c) else ''-'' @ lcd c))
   \<and> (lcd c = ''0'' \<longrightarrow> lcd (negate c) = ''0'')"
  using negate_twice_reachable [of bs] negate_twice_nonzero_value [of c]
  by (simp add: negate_effect)

theorem negate_twice_witness:
  "list_all valid_button [Digit 5, Negate]
   \<and> \<not> overwrite (run [Digit 5, Negate] new_Calculator)
   \<and> lcd (run [Digit 5, Negate] new_Calculator) = ''-5''
   \<and> lcd (negate (run [Digit 5, Negate] new_Calculator)) = ''5''
   \<and> lcd (negate (negate (run [Digit 5, Negate] new_Calculator))) = ''-5''
   \<and> \<not> overwrite (digit (Fin 5) new_Calculator)
   \<and> parseFloat (lcd (digit (Fin 5) new_Calculator)) = Fin 5
   \<and> lcd (negate (digit (Fin 5) new_Calculator)) = ''-5''
   \<and> lcd (negate (negate (digit (Fin 5) new_Calculator))) = ''5''
   \<and> lcd (negate new_Calculator) = ''0''
   \<and> lcd (negate (negate new_Calculator)) = ''0''"
proof -
  define r where "r = run [Digit 5, Negate] new_Calculator"
  define c5 where "c5 = digit (Fin 5) new_Calculator"
  define z where "z = negate new_Calculator"
  have v: "list_all valid_button [Digit 5, Negate]"
    by simp
  have s5: "\<not> overwrite c5" "lcd c5 = ''5''"
    by (simp_all add: c5_def digit_effect new_Calculator_fields toString_digits)
  have p5: "parseFloat (lcd c5) = Fin 5"
    by (simp add: s5 parseFloat_digits)
  have rr: "r = negate c5"
    by (simp add: r_def c5_def run_def)
  have sr: "\<not> overwrite r" "lcd r = ''-5''"
    using s5 by (simp_all add: rr negate_effect starts_with_def)
  have sz: "lcd z = ''0''"
    by (simp add: z_def negate_effect new_Calculator_fields)
  from negate_twice [of "[Digit 5, Negate]" r] v sr
  have a: "lcd (negate (negate r)) = ''-5''" "lcd (negate r) = ''5''"
    by (simp_all add: r_def [symmetric] starts_with_def)
  from negate_twice [of "[]" c5] s5 p5
  have b: "lcd (negate (negate c5)) = ''5''" "lcd (negate c5) = ''-5''"
    by (simp_all add: starts_with_def)
  from negate_twice [of "[]" z] sz
  have c: "lcd (negate z) = ''0''"
    by simp
  from v sr s5 p5 a b c sz show ?thesis
    by (simp add: r_def c5_def z_def)
qed

subsection \<open>Square and percent\<close>

text \<open>
  Claim C9: for every state, \<^verbatim>\<open>square()\<close> sets the display to the string of the square of
  the displayed value and \<^verbatim>\<open>percent()\<close> to the string of the displayed value divided by
  100; both leave \<open>arg\<close>, \<open>lastOp\<close>, \<open>overwrite\<close> and \<open>repeat\<close> as they were. For a finite
  value \<open>x\<close> the square is the product \<open>x * x\<close> and the hundredth the quotient \<open>x / 100\<close>,
  each rounded to binary64; a display of \<open>5\<close> is squared to \<open>25\<close>, and \<open>50\<close> per cent is
  \<open>0.5\<close>.
\<close>

theorem square_percent_frame:
  "lcd (square c) =
       (case parseFloat (lcd c) of
          NaN \<Rightarrow> ''NaN''
        | PosInf \<Rightarrow> ''Infinity''
        | NegInf \<Rightarrow> ''Infinity''
        | NegZero \<Rightarrow> ''0''
        | Fin x \<Rightarrow> number_toString (fround False (x * x)))
   \<and> lcd (square c) =
       number_toString (number_multiply (parseFloat (lcd c)) (parseFloat (lcd c)))
   \<and> arg (square c) = arg c \<and> lastOp (square c) = lastOp c
   \<and> overwrite (square c) = overwrite c \<and> repeat (square c) = repeat c
   \<and> lcd (percent c) =
       (case parseFloat (lcd c) of
          NaN \<Rightarrow> ''NaN''
        | PosInf \<Rightarrow> ''Infinity''
        | NegInf \<Rightarrow> ''-Infinity''
        | NegZero \<Rightarrow> ''0''
        | Fin x \<Rightarrow> number_toString (fround (x < 0) (x / 100)))
   \<and> lcd (percent c) = number_toString (number_divide (parseFloat (lcd c)) (Fin 100))
   \<and> arg (percent c) = arg c \<and> lastOp (percent c) = lastOp c
   \<and> overwrite (percent c) = overwrite c \<and> repeat (percent c) = repeat c"
  using square_value [of c] percent_value [of c]
  by (simp add: square_effect percent_effect)

theorem square_percent_frame_witness:
  "lcd (digit (Fin 5) new_Calculator) = ''5''
   \<and> lcd (square (digit (Fin 5) new_Calculator)) = ''25''
   \<and> arg (square (digit (Fin 5) new_Calculator)) = None
   \<and> lastOp (square (digit (Fin 5) new_Calculator)) = None
   \<and> overwrite (square (digit (Fin 5) new_Calculator)) = False
   \<and> repeat (square (digit (Fin 5) new_Calculator)) = False
   \<and> lcd (digit (Fin 0) (digit (Fin 5) new_Calculator)) = ''50''
   \<and> lcd (percent (digit (Fin 0) (digit (Fin 5) new_Calculator))) = ''0.5''
   \<and> overwrite (percent (digit (Fin 0) (digit (Fin 5) new_Calculator))) = False"
proof -
  define c5 where "c5 = digit (Fin 5) new_Calculator"
  define c50 where "c50 = digit (Fin 0) c5"
  have s5: "lcd c5 = ''5''" "arg c5 = None" "lastOp c5 = None" "overwrite c5 = False"
    "repeat c5 = False"
    by (simp_all add: c5_def digit_effect new_Calculator_fields toString_digits)
  have s50: "lcd c50 = ''50''" "overwrite c50 = False"
    by (simp_all add: c50_def digit_effect s5 toString_digits)
  from square_percent_frame [of c5] s5
  have sq: "lcd (square c5) = ''25''" "arg (square c5) = None" "lastOp (square c5) = None"
    "overwrite (square c5) = False" "repeat (square c5) = False"
    by (simp_all add: parseFloat_digits fround_numeral toString_25)
  from square_percent_frame [of c50] s50
  have pc: "lcd (percent c50) = ''0.5''" "overwrite (percent c50) = False"
    by (simp_all add: parseFloat_50 fround_half toString_half)
  from s5 s50 sq pc show ?thesis
    by (simp add: c50_def c5_def)
qed

subsection \<open>Equals with no pending operator\<close>

text \<open>
  Claim C10, as stated: for every state with no pending operator, \<^verbatim>\<open>equals()\<close> sets \<open>arg\<close>
  to the numeric value of the display. It fails when \<open>repeat\<close> is already true: after
  \<^verbatim>\<open>equals()\<close>, \<^verbatim>\<open>digit(7)\<close> a second \<^verbatim>\<open>equals()\<close> keeps the \<open>arg\<close> of the first, 0, and
  not 7.
\<close>

theorem equals_without_operator_counterexample:
  "lastOp (digit (Fin 7) (equals new_Calculator)) = None
   \<and> parseFloat (lcd (digit (Fin 7) (equals new_Calculator))) = Fin 7
   \<and> arg (equals (digit (Fin 7) (equals new_Calculator))) = Some (Fin 0)"
  by (simp add: equals_effect digit_effect new_Calculator_fields toString_digits
        parseFloat_digits)

text \<open>
  Claim C10, amended: for every state with no pending operator, \<^verbatim>\<open>equals()\<close> leaves the
  display unchanged, sets \<open>repeat\<close> and \<open>overwrite\<close> to true and leaves \<open>lastOp\<close> absent;
  it sets \<open>arg\<close> to the numeric value of the display when \<open>repeat\<close> was false, and leaves
  \<open>arg\<close> unchanged when \<open>repeat\<close> was already true.
\<close>

theorem equals_without_operator:
  "lastOp c = None \<Longrightarrow>
     lcd (equals c) = lcd c \<and> repeat (equals c) \<and> overwrite (equals c)
     \<and> lastOp (equals c) = None
     \<and> arg (equals c) = (if repeat c then arg c else Some (parseFloat (lcd c)))"
  by (simp add: equals_effect)

theorem equals_without_operator_witness:
  "lastOp new_Calculator = None
   \<and> lcd (equals new_Calculator) = ''0'' \<and> repeat (equals new_Calculator)
   \<and> overwrite (equals new_Calculator) \<and> lastOp (equals new_Calculator) = None
   \<and> arg (equals new_Calculator) = Some (Fin 0)"
proof -
  have a: "lastOp new_Calculator = None"
    by (simp add: new_Calculator_fields)
  from equals_without_operator [OF a] a show ?thesis
    by (simp add: new_Calculator_fields parseFloat_digits)
qed

end
